theory Spec2Isabelle
  imports Main "HOL-Library.Word"
begin

unbundle bit_operations_syntax

section \<open>The VOX decoder of voxfile.go\<close>

text \<open>
  A shallow embedding of \<^verbatim>\<open>src/voxfile.go\<close>. Go's \<^verbatim>\<open>uint8\<close> and \<^verbatim>\<open>uint32\<close> are
  8 and 32 bit words, so that \<^verbatim>\<open>chunkSize + 12\<close> and
  \<^verbatim>\<open>remainingBytes - childReadSize\<close> wrap as they do in Go. Go's \<^verbatim>\<open>int\<close> (64 bit) only
  holds loop counters bounded by 256 and by \<^verbatim>\<open>int(chunkSize)\<close> plus 3; these are natural numbers here.
\<close>

type_synonym byte = "8 word"
type_synonym uint32 = "32 word"

subsection \<open>Data (voxfile.go, lines 21-64)\<close>

definition CurrentVersion :: uint32 where
  "CurrentVersion = 150"

record Voxel =
  X :: byte
  Y :: byte
  Z :: byte
  Index :: byte

record Color =
  R :: byte
  G :: byte
  B :: byte
  A :: byte

text \<open>
  The slices \<^verbatim>\<open>[]*Voxel\<close> and \<^verbatim>\<open>[]*Color\<close> hold pointers: an element is \<open>None\<close> for
  the nil pointer that \<^verbatim>\<open>make\<close> puts there and \<open>Some v\<close> once the element has been assigned.
  The nil slice of a fresh \<^verbatim>\<open>VoxFile\<close> is the empty list.
\<close>

record VoxFile =
  Version :: uint32
  SizeX :: uint32
  SizeY :: uint32
  SizeZ :: uint32
  Voxels :: "Voxel option list"
  Palette :: "Color option list"

definition new_VoxFile :: VoxFile where
  "new_VoxFile = \<lparr>Version = 0, SizeX = 0, SizeY = 0, SizeZ = 0, Voxels = [], Palette = []\<rparr>"

subsection \<open>The input stream\<close>

text \<open>
  The \<^verbatim>\<open>*bufio.Reader\<close> is a buffer in front of an underlying \<^verbatim>\<open>io.Reader\<close>. Its state is
  \<^item> \<open>buf\<close>, the bytes that are in the buffer and not yet consumed, and
  \<^item> \<open>src\<close>, what the underlying reader is going to deliver: one list of bytes for each of its
    coming \<^verbatim>\<open>Read\<close> calls (an empty list is a read of 0 bytes without error); after the last
    one it returns \<^verbatim>\<open>io.EOF\<close>.
  A piece is never longer than the buffer, whose size the caller of \<open>Decode\<close> has chosen.
  A file that arrives in one read is \<open>delivered [bytes]\<close>; a stream that arrives in pieces,
  or a file longer than the buffer, has several elements.
\<close>

record Reader =
  buf :: "byte list"
  src :: "byte list list"

definition delivered :: "byte list list \<Rightarrow> Reader" where
  "delivered pieces = \<lparr>buf = [], src = pieces\<rparr>"

text \<open>All the bytes still to come, and a size that every successful read makes smaller.\<close>

definition remaining :: "Reader \<Rightarrow> byte list" where
  "remaining r = buf r @ concat (src r)"

definition rsize :: "Reader \<Rightarrow> nat" where
  "rsize r = length (buf r) + sum_list (map (\<lambda>piece. Suc (length piece)) (src r))"

datatype ioerr = EOF | ErrUnexpectedEOF

text \<open>
  \<^verbatim>\<open>bufio.Reader.Read(p)\<close> for a \<open>p\<close> of \<open>n\<close> bytes, \<open>n\<close> above 0 and below the size of the
  buffer (the decoder asks for 4 bytes): with an empty buffer it makes one read of the
  underlying reader into the buffer, and then it hands out what the buffer holds, at most \<open>n\<close>
  bytes. So it can return fewer than \<open>n\<close> bytes while more input is to come. The result is the
  list of the bytes copied to the front of \<open>p\<close>; its length is the count that Go returns.
\<close>

definition Reader_Read :: "nat \<Rightarrow> Reader \<Rightarrow> ioerr + (byte list \<times> Reader)" where
  "Reader_Read n r =
     (if buf r = [] then
        (case src r of
           [] \<Rightarrow> Inl EOF
         | piece # rest \<Rightarrow> Inr (take n piece, \<lparr>buf = drop n piece, src = rest\<rparr>))
      else Inr (take n (buf r), r\<lparr>buf := drop n (buf r)\<rparr>))"

text \<open>The array \<open>arr\<close> after \<^verbatim>\<open>Read\<close> has copied \<open>bs\<close> over its front.\<close>

definition copyInto :: "byte list \<Rightarrow> byte list \<Rightarrow> byte list" where
  "copyInto bs arr = bs @ drop (length bs) arr"

lemma Reader_Read_rsize:
  "0 < n \<Longrightarrow> Reader_Read n r = Inr (bs, r') \<Longrightarrow> rsize r' < rsize r"
  by (cases "buf r") (auto simp: Reader_Read_def rsize_def split: list.splits)

text \<open>
  \<^verbatim>\<open>io.ReadFull\<close>, which \<^verbatim>\<open>binary.Read\<close> calls for a \<^verbatim>\<open>uint32\<close> (4 bytes) and a \<^verbatim>\<open>uint8\<close>
  (1 byte): it reads until it has \<open>k\<close> more bytes; an error of the reader after some bytes is
  \<^verbatim>\<open>io.ErrUnexpectedEOF\<close>, before any byte it is the error itself. \<open>got\<close> holds the bytes
  read so far.
\<close>

function ReadFull :: "nat \<Rightarrow> byte list \<Rightarrow> Reader \<Rightarrow> ioerr + (byte list \<times> Reader)" where
  "ReadFull k got r =
     (if k = 0 then Inr (got, r)
      else (case Reader_Read k r of
              Inl e \<Rightarrow> Inl (if got = [] then e else ErrUnexpectedEOF)
            | Inr (bs, r') \<Rightarrow> ReadFull (k - length bs) (got @ bs) r'))"
  by pat_completeness auto
termination
  by (relation "measure (\<lambda>(k, got, r). rsize r)") (auto simp: Reader_Read_rsize)

text \<open>\<^verbatim>\<open>binary.LittleEndian\<close> puts byte 0 in the low bits.\<close>

definition Uint32 :: "byte list \<Rightarrow> uint32" where
  "Uint32 b = ucast (b ! 0) OR push_bit 8 (ucast (b ! 1)) OR push_bit 16 (ucast (b ! 2))
                OR push_bit 24 (ucast (b ! 3))"

definition binary_Read_uint32 :: "Reader \<Rightarrow> ioerr + (uint32 \<times> Reader)" where
  "binary_Read_uint32 r =
     (case ReadFull 4 [] r of Inl e \<Rightarrow> Inl e | Inr (bs, r') \<Rightarrow> Inr (Uint32 bs, r'))"

definition binary_Read_uint8 :: "Reader \<Rightarrow> ioerr + (byte \<times> Reader)" where
  "binary_Read_uint8 r =
     (case ReadFull 1 [] r of Inl e \<Rightarrow> Inl e | Inr (bs, r') \<Rightarrow> Inr (bs ! 0, r'))"

definition ascii :: "string \<Rightarrow> byte list" where
  "ascii s = map of_char s"

subsection \<open>Errors\<close>

text \<open>
  Every error of the decoder is made by \<^verbatim>\<open>fmt.Errorf\<close>: one constructor for each format string,
  holding the values that are printed into it (the chunk identifier, an index, the error of the read).
\<close>

datatype error =
    ErrNotVox ioerr                       \<comment> \<open>line 90: File doesn't appear to be a VOX file. err\<close>
  | ErrMagic "byte list"                  \<comment> \<open>line 93: File doesn't appear to be a VOX file. (Magic: ...)\<close>
  | ErrVersionRead ioerr                  \<comment> \<open>line 100: Couldn't read the version number from the file.\<close>
  | ErrVersionMismatch uint32 uint32      \<comment> \<open>line 103: Version number from the file (found) doesn't match the current version (expected).\<close>
  | ErrChunkID ioerr                      \<comment> \<open>line 121\<close>
  | ErrChunkSize "byte list" ioerr        \<comment> \<open>line 129\<close>
  | ErrChildrenSize "byte list" ioerr     \<comment> \<open>line 136\<close>
  | ErrSizeNot12 "byte list" uint32       \<comment> \<open>line 145: Size should have been 12 but is ...\<close>
  | ErrSizeX "byte list" ioerr            \<comment> \<open>line 150\<close>
  | ErrSizeY "byte list" ioerr            \<comment> \<open>line 155\<close>
  | ErrSizeZ "byte list" ioerr            \<comment> \<open>line 160\<close>
  | ErrVoxelCount "byte list" ioerr       \<comment> \<open>line 170\<close>
  | ErrVoxel "byte list" uint32 ioerr     \<comment> \<open>lines 179-191: voxel number i\<close>
  | ErrColor "byte list" nat ioerr        \<comment> \<open>lines 208-220: color number i\<close>
  | ErrContents "byte list" ioerr         \<comment> \<open>line 237\<close>

subsection \<open>The default palette (lines 257-292)\<close>

definition paletteSize :: nat where
  "paletteSize = 256"

definition unpackColor :: "uint32 \<Rightarrow> Color" where
  "unpackColor val =
     \<lparr>R = ucast (val AND 0x000000ff),
      G = ucast (drop_bit 8 (val AND 0x0000ff00)),
      B = ucast (drop_bit 16 (val AND 0x00ff0000)),
      A = ucast (drop_bit 24 (val AND 0xff000000))\<rparr>"

function instancePalette_loop :: "uint32 list \<Rightarrow> nat \<Rightarrow> Color option list \<Rightarrow> Color option list" where
  "instancePalette_loop p i palette =
     (if i < paletteSize
      then instancePalette_loop p (i + 1) (palette[i := Some (unpackColor (p ! i))])
      else palette)"
  by pat_completeness auto
termination
  by (relation "measure (\<lambda>(p, i, palette). paletteSize - i)") auto

definition instancePalette :: "uint32 list \<Rightarrow> Color option list" where
  "instancePalette p = instancePalette_loop p 0 (replicate 256 None)"

definition defaultPalette :: "uint32 list" where
  "defaultPalette = [
    0x00000000, 0xffffffff, 0xffccffff, 0xff99ffff, 0xff66ffff, 0xff33ffff, 0xff00ffff, 0xffffccff,
    0xffccccff, 0xff99ccff, 0xff66ccff, 0xff33ccff, 0xff00ccff, 0xffff99ff, 0xffcc99ff, 0xff9999ff,
    0xff6699ff, 0xff3399ff, 0xff0099ff, 0xffff66ff, 0xffcc66ff, 0xff9966ff, 0xff6666ff, 0xff3366ff,
    0xff0066ff, 0xffff33ff, 0xffcc33ff, 0xff9933ff, 0xff6633ff, 0xff3333ff, 0xff0033ff, 0xffff00ff,
    0xffcc00ff, 0xff9900ff, 0xff6600ff, 0xff3300ff, 0xff0000ff, 0xffffffcc, 0xffccffcc, 0xff99ffcc,
    0xff66ffcc, 0xff33ffcc, 0xff00ffcc, 0xffffcccc, 0xffcccccc, 0xff99cccc, 0xff66cccc, 0xff33cccc,
    0xff00cccc, 0xffff99cc, 0xffcc99cc, 0xff9999cc, 0xff6699cc, 0xff3399cc, 0xff0099cc, 0xffff66cc,
    0xffcc66cc, 0xff9966cc, 0xff6666cc, 0xff3366cc, 0xff0066cc, 0xffff33cc, 0xffcc33cc, 0xff9933cc,
    0xff6633cc, 0xff3333cc, 0xff0033cc, 0xffff00cc, 0xffcc00cc, 0xff9900cc, 0xff6600cc, 0xff3300cc,
    0xff0000cc, 0xffffff99, 0xffccff99, 0xff99ff99, 0xff66ff99, 0xff33ff99, 0xff00ff99, 0xffffcc99,
    0xffcccc99, 0xff99cc99, 0xff66cc99, 0xff33cc99, 0xff00cc99, 0xffff9999, 0xffcc9999, 0xff999999,
    0xff669999, 0xff339999, 0xff009999, 0xffff6699, 0xffcc6699, 0xff996699, 0xff666699, 0xff336699,
    0xff006699, 0xffff3399, 0xffcc3399, 0xff993399, 0xff663399, 0xff333399, 0xff003399, 0xffff0099,
    0xffcc0099, 0xff990099, 0xff660099, 0xff330099, 0xff000099, 0xffffff66, 0xffccff66, 0xff99ff66,
    0xff66ff66, 0xff33ff66, 0xff00ff66, 0xffffcc66, 0xffcccc66, 0xff99cc66, 0xff66cc66, 0xff33cc66,
    0xff00cc66, 0xffff9966, 0xffcc9966, 0xff999966, 0xff669966, 0xff339966, 0xff009966, 0xffff6666,
    0xffcc6666, 0xff996666, 0xff666666, 0xff336666, 0xff006666, 0xffff3366, 0xffcc3366, 0xff993366,
    0xff663366, 0xff333366, 0xff003366, 0xffff0066, 0xffcc0066, 0xff990066, 0xff660066, 0xff330066,
    0xff000066, 0xffffff33, 0xffccff33, 0xff99ff33, 0xff66ff33, 0xff33ff33, 0xff00ff33, 0xffffcc33,
    0xffcccc33, 0xff99cc33, 0xff66cc33, 0xff33cc33, 0xff00cc33, 0xffff9933, 0xffcc9933, 0xff999933,
    0xff669933, 0xff339933, 0xff009933, 0xffff6633, 0xffcc6633, 0xff996633, 0xff666633, 0xff336633,
    0xff006633, 0xffff3333, 0xffcc3333, 0xff993333, 0xff663333, 0xff333333, 0xff003333, 0xffff0033,
    0xffcc0033, 0xff990033, 0xff660033, 0xff330033, 0xff000033, 0xffffff00, 0xffccff00, 0xff99ff00,
    0xff66ff00, 0xff33ff00, 0xff00ff00, 0xffffcc00, 0xffcccc00, 0xff99cc00, 0xff66cc00, 0xff33cc00,
    0xff00cc00, 0xffff9900, 0xffcc9900, 0xff999900, 0xff669900, 0xff339900, 0xff009900, 0xffff6600,
    0xffcc6600, 0xff996600, 0xff666600, 0xff336600, 0xff006600, 0xffff3300, 0xffcc3300, 0xff993300,
    0xff663300, 0xff333300, 0xff003300, 0xffff0000, 0xffcc0000, 0xff990000, 0xff660000, 0xff330000,
    0xff0000ee, 0xff0000dd, 0xff0000bb, 0xff0000aa, 0xff000088, 0xff000077, 0xff000055, 0xff000044,
    0xff000022, 0xff000011, 0xff00ee00, 0xff00dd00, 0xff00bb00, 0xff00aa00, 0xff008800, 0xff007700,
    0xff005500, 0xff004400, 0xff002200, 0xff001100, 0xffee0000, 0xffdd0000, 0xffbb0000, 0xffaa0000,
    0xff880000, 0xff770000, 0xff550000, 0xff440000, 0xff220000, 0xff110000, 0xffeeeeee, 0xffdddddd,
    0xffbbbbbb, 0xffaaaaaa, 0xff888888, 0xff777777, 0xff555555, 0xff444444, 0xff222222, 0xff111111]"

subsection \<open>The payload handlers of readChunk (lines 139-242)\<close>

text \<open>The dimensions chunk, lines 143-165.\<close>

definition readSIZE :: "byte list \<Rightarrow> uint32 \<Rightarrow> Reader \<Rightarrow> VoxFile \<Rightarrow> error + (Reader \<times> VoxFile)" where
  "readSIZE chunkIDStr chunkSize r voxFile =
     (if chunkSize \<noteq> 12 then Inl (ErrSizeNot12 chunkIDStr chunkSize)
      else case binary_Read_uint32 r of
        Inl e \<Rightarrow> Inl (ErrSizeX chunkIDStr e)
      | Inr (sizeX, r1) \<Rightarrow>
     (case binary_Read_uint32 r1 of
        Inl e \<Rightarrow> Inl (ErrSizeY chunkIDStr e)
      | Inr (sizeY, r2) \<Rightarrow>
     (case binary_Read_uint32 r2 of
        Inl e \<Rightarrow> Inl (ErrSizeZ chunkIDStr e)
      | Inr (sizeZ, r3) \<Rightarrow>
          Inr (r3, voxFile\<lparr>SizeX := sizeX, SizeY := sizeY, SizeZ := sizeZ\<rparr>))))"

text \<open>
  The voxel loop, lines 175-196: \<open>i\<close> is a \<^verbatim>\<open>uint32\<close>. It cannot wrap below
  \<open>voxelCount\<close>, so the distance to \<open>voxelCount\<close> shrinks with every round.
\<close>

lemma uint32_loop_measure:
  fixes i n :: uint32
  assumes "i < n"
  shows "unat (n - (i + 1)) < unat (n - i)"
proof -
  from assms have le: "i + 1 \<le> n" by (rule inc_le)
  from assms have lt: "unat i < unat n" by (simp add: word_less_nat_alt)
  have "unat n < 2 ^ 32" using unsigned_less [of n] by simp
  with lt have "unat i + unat (1::uint32) < 2 ^ LENGTH(32)" by simp
  then have s: "unat (i + 1) = unat i + 1" by (simp add: unat_add_lem [THEN iffD1])
  from le have "unat (n - (i + 1)) = unat n - unat (i + 1)" by (rule unat_sub)
  moreover from assms have "unat (n - i) = unat n - unat i" by (simp add: unat_sub)
  ultimately show ?thesis using s lt by simp
qed

function readVoxels :: "byte list \<Rightarrow> uint32 \<Rightarrow> uint32 \<Rightarrow> Voxel option list \<Rightarrow> Reader
    \<Rightarrow> error + (Voxel option list \<times> Reader)" where
  "readVoxels chunkIDStr voxelCount i voxels r =
     (if i < voxelCount then
        (case binary_Read_uint8 r of
           Inl e \<Rightarrow> Inl (ErrVoxel chunkIDStr i e)
         | Inr (vX, r1) \<Rightarrow>
        (case binary_Read_uint8 r1 of
           Inl e \<Rightarrow> Inl (ErrVoxel chunkIDStr i e)
         | Inr (vY, r2) \<Rightarrow>
        (case binary_Read_uint8 r2 of
           Inl e \<Rightarrow> Inl (ErrVoxel chunkIDStr i e)
         | Inr (vZ, r3) \<Rightarrow>
        (case binary_Read_uint8 r3 of
           Inl e \<Rightarrow> Inl (ErrVoxel chunkIDStr i e)
         | Inr (vI, r4) \<Rightarrow>
             readVoxels chunkIDStr voxelCount (i + 1)
               (voxels[unat i := Some \<lparr>X = vX, Y = vY, Z = vZ, Index = vI\<rparr>]) r4))))
      else Inr (voxels, r))"
  by pat_completeness auto
termination
  by (relation "measure (\<lambda>(chunkIDStr, voxelCount, i, voxels, r). unat (voxelCount - i))")
     (auto simp: uint32_loop_measure)

text \<open>The voxel-array chunk, lines 167-198.\<close>

definition readXYZI :: "byte list \<Rightarrow> Reader \<Rightarrow> VoxFile \<Rightarrow> error + (Reader \<times> VoxFile)" where
  "readXYZI chunkIDStr r voxFile =
     (case binary_Read_uint32 r of
        Inl e \<Rightarrow> Inl (ErrVoxelCount chunkIDStr e)
      | Inr (voxelCount, r1) \<Rightarrow>
     (case readVoxels chunkIDStr voxelCount 0 (replicate (unat voxelCount) None) r1 of
        Inl e \<Rightarrow> Inl e
      | Inr (voxels, r2) \<Rightarrow> Inr (r2, voxFile\<lparr>Voxels := voxels\<rparr>)))"

text \<open>The color loop, lines 204-225.\<close>

function readColors :: "byte list \<Rightarrow> nat \<Rightarrow> Color option list \<Rightarrow> Reader
    \<Rightarrow> error + (Color option list \<times> Reader)" where
  "readColors chunkIDStr i customPalette r =
     (if i < paletteSize then
        (case binary_Read_uint8 r of
           Inl e \<Rightarrow> Inl (ErrColor chunkIDStr i e)
         | Inr (vR, r1) \<Rightarrow>
        (case binary_Read_uint8 r1 of
           Inl e \<Rightarrow> Inl (ErrColor chunkIDStr i e)
         | Inr (vG, r2) \<Rightarrow>
        (case binary_Read_uint8 r2 of
           Inl e \<Rightarrow> Inl (ErrColor chunkIDStr i e)
         | Inr (vB, r3) \<Rightarrow>
        (case binary_Read_uint8 r3 of
           Inl e \<Rightarrow> Inl (ErrColor chunkIDStr i e)
         | Inr (vA, r4) \<Rightarrow>
             readColors chunkIDStr (i + 1)
               (customPalette[i := Some \<lparr>R = vR, G = vG, B = vB, A = vA\<rparr>]) r4))))
      else Inr (customPalette, r))"
  by pat_completeness auto
termination
  by (relation "measure (\<lambda>(chunkIDStr, i, customPalette, r). paletteSize - i)") auto

text \<open>The custom palette chunk, lines 200-227.\<close>

definition readRGBA :: "byte list \<Rightarrow> Reader \<Rightarrow> VoxFile \<Rightarrow> error + (Reader \<times> VoxFile)" where
  "readRGBA chunkIDStr r voxFile =
     (case readColors chunkIDStr 0 (replicate 256 None) r of
        Inl e \<Rightarrow> Inl e
      | Inr (customPalette, r1) \<Rightarrow> Inr (r1, voxFile\<lparr>Palette := customPalette\<rparr>))"

text \<open>
  Any other chunk, lines 231-240: the loop reads into the four bytes of \<^verbatim>\<open>chunkID\<close> until
  \<^verbatim>\<open>totalRead\<close> has reached \<^verbatim>\<open>int(chunkSize)\<close>.
\<close>

function skipContents :: "byte list \<Rightarrow> uint32 \<Rightarrow> nat \<Rightarrow> byte list \<Rightarrow> Reader \<Rightarrow> error + Reader" where
  "skipContents chunkIDStr chunkSize totalRead chunkID r =
     (if totalRead < unat chunkSize then
        (case Reader_Read 4 r of
           Inl e \<Rightarrow> Inl (ErrContents chunkIDStr e)
         | Inr (bs, r') \<Rightarrow>
             skipContents chunkIDStr chunkSize (totalRead + length bs) (copyInto bs chunkID) r')
      else Inr r)"
  by pat_completeness auto
termination
  by (relation "measure (\<lambda>(chunkIDStr, chunkSize, totalRead, chunkID, r). rsize r)")
     (auto intro!: Reader_Read_rsize [where n = 4])

text \<open>The dispatch on the identifier, lines 140-242.\<close>

definition readPayload :: "byte list \<Rightarrow> uint32 \<Rightarrow> Reader \<Rightarrow> VoxFile \<Rightarrow> error + (Reader \<times> VoxFile)" where
  "readPayload chunkID chunkSize r voxFile =
     (if chunkSize > 0 then
        (if chunkID = ascii ''SIZE'' then readSIZE chunkID chunkSize r voxFile
         else if chunkID = ascii ''XYZI'' then readXYZI chunkID r voxFile
         else if chunkID = ascii ''RGBA'' then readRGBA chunkID r voxFile
         else (case skipContents chunkID chunkSize 0 chunkID r of
                 Inl e \<Rightarrow> Inl e
               | Inr r' \<Rightarrow> Inr (r', voxFile)))
      else Inr (r, voxFile))"


subsection \<open>What a read consumes\<close>

lemma Reader_Read_content:
  "Reader_Read n r = Inr (bs, r') \<Longrightarrow> remaining r = bs @ remaining r' \<and> length bs \<le> n"
  by (cases "buf r") (auto simp: Reader_Read_def remaining_def split: list.splits)

lemma ReadFull_rsize:
  "ReadFull k got r = Inr (bs, r') \<Longrightarrow> rsize r' \<le> rsize r \<and> (0 < k \<longrightarrow> rsize r' < rsize r)"
proof (induction k got r rule: ReadFull.induct)
  case (1 k got r)
  show ?case
  proof (cases "k = 0")
    case True
    with "1.prems" show ?thesis by simp
  next
    case False
    with "1.prems" obtain bs0 r0 where a: "Reader_Read k r = Inr (bs0, r0)"
      and b: "ReadFull (k - length bs0) (got @ bs0) r0 = Inr (bs, r')"
      by (cases "Reader_Read k r") auto
    from "1.IH" [OF False a refl b] have "rsize r' \<le> rsize r0" by simp
    moreover from False have "rsize r0 < rsize r" by (intro Reader_Read_rsize [OF _ a]) simp
    ultimately show ?thesis by simp
  qed
qed

lemma ReadFull_content:
  "ReadFull k got r = Inr (bs, r') \<Longrightarrow>
     bs = got @ take k (remaining r) \<and> remaining r' = drop k (remaining r)
     \<and> k \<le> length (remaining r)"
proof (induction k got r rule: ReadFull.induct)
  case (1 k got r)
  show ?case
  proof (cases "k = 0")
    case True
    with "1.prems" show ?thesis by simp
  next
    case False
    with "1.prems" obtain bs0 r0 where a: "Reader_Read k r = Inr (bs0, r0)"
      and b: "ReadFull (k - length bs0) (got @ bs0) r0 = Inr (bs, r')"
      by (cases "Reader_Read k r") auto
    from Reader_Read_content [OF a] have c: "remaining r = bs0 @ remaining r0" "length bs0 \<le> k"
      by simp_all
    from "1.IH" [OF False a refl b]
    have "bs = (got @ bs0) @ take (k - length bs0) (remaining r0)"
      "remaining r' = drop (k - length bs0) (remaining r0)"
      "k - length bs0 \<le> length (remaining r0)" by simp_all
    with c show ?thesis by simp
  qed
qed

lemma ReadFull_short:
  "length (remaining r) < k \<Longrightarrow>
     ReadFull k got r = Inl (if got = [] \<and> remaining r = [] then EOF else ErrUnexpectedEOF)"
proof (induction k got r rule: ReadFull.induct)
  case (1 k got r)
  from "1.prems" have k: "k \<noteq> 0" by simp
  show ?case
  proof (cases "Reader_Read k r")
    case (Inl e)
    then have "buf r = []" "src r = []" "e = EOF"
      by (auto simp: Reader_Read_def split: if_splits list.splits)
    with Inl k show ?thesis by (simp add: remaining_def)
  next
    case (Inr p)
    obtain bs0 r0 where p: "p = (bs0, r0)" by (cases p)
    from Reader_Read_content [of k r bs0 r0] Inr p
    have c: "remaining r = bs0 @ remaining r0" "length bs0 \<le> k" by simp_all
    with "1.prems" have "length (remaining r0) < k - length bs0" by simp
    from "1.IH" [OF k Inr [unfolded p] refl this]
    have "ReadFull (k - length bs0) (got @ bs0) r0
        = Inl (if got @ bs0 = [] \<and> remaining r0 = [] then EOF else ErrUnexpectedEOF)" .
    with Inr p k c show ?thesis by simp
  qed
qed

lemma ReadFull_complete:
  "k \<le> length (remaining r) \<Longrightarrow> \<exists>r'. ReadFull k got r = Inr (got @ take k (remaining r), r')"
proof (induction k got r rule: ReadFull.induct)
  case (1 k got r)
  show ?case
  proof (cases "k = 0")
    case True
    then show ?thesis by simp
  next
    case False
    with "1.prems" have "remaining r \<noteq> []" by auto
    then obtain bs0 r0 where a: "Reader_Read k r = Inr (bs0, r0)"
      by (cases "buf r"; cases "src r") (auto simp: Reader_Read_def remaining_def)
    from Reader_Read_content [OF a] have c: "remaining r = bs0 @ remaining r0" "length bs0 \<le> k"
      by simp_all
    with "1.prems" have "k - length bs0 \<le> length (remaining r0)" by simp
    from "1.IH" [OF False a refl this] obtain r'
      where "ReadFull (k - length bs0) (got @ bs0) r0
        = Inr ((got @ bs0) @ take (k - length bs0) (remaining r0), r')" by blast
    with False a c show ?thesis by simp
  qed
qed

lemma ReadFull_buffered:
  "k \<le> length (buf r) \<Longrightarrow> ReadFull k got r = Inr (got @ take k (buf r), r\<lparr>buf := drop k (buf r)\<rparr>)"
proof (cases "k = 0")
  case True
  then show ?thesis by simp
next
  case False
  assume "k \<le> length (buf r)"
  with False have "Reader_Read k r = Inr (take k (buf r), r\<lparr>buf := drop k (buf r)\<rparr>)"
    by (auto simp: Reader_Read_def)
  moreover from \<open>k \<le> length (buf r)\<close> have "length (take k (buf r)) = k" by simp
  ultimately show ?thesis using False by simp
qed

declare ReadFull.simps [simp del]

lemma binary_Read_uint32_rsize:
  "binary_Read_uint32 r = Inr (v, r') \<Longrightarrow> rsize r' < rsize r"
  by (cases "ReadFull 4 [] r") (auto simp: binary_Read_uint32_def dest: ReadFull_rsize)

lemma binary_Read_uint8_rsize:
  "binary_Read_uint8 r = Inr (v, r') \<Longrightarrow> rsize r' < rsize r"
  by (cases "ReadFull 1 [] r") (auto simp: binary_Read_uint8_def dest: ReadFull_rsize)

lemma binary_Read_uint32_content:
  "binary_Read_uint32 r = Inr (v, r') \<Longrightarrow>
     4 \<le> length (remaining r) \<and> v = Uint32 (take 4 (remaining r))
     \<and> remaining r' = drop 4 (remaining r)"
  by (cases "ReadFull 4 [] r") (auto simp: binary_Read_uint32_def dest: ReadFull_content)

lemma binary_Read_uint8_content:
  assumes "binary_Read_uint8 r = Inr (v, r')"
  shows "remaining r = v # remaining r'"
proof -
  from assms obtain bs where a: "ReadFull 1 [] r = Inr (bs, r')" and v: "v = bs ! 0"
    by (cases "ReadFull 1 [] r") (auto simp: binary_Read_uint8_def)
  from ReadFull_content [OF a] have "bs = take 1 (remaining r)"
    "remaining r' = drop 1 (remaining r)" "1 \<le> length (remaining r)" by simp_all
  with v show ?thesis by (cases "remaining r") simp_all
qed

lemma readVoxels_rsize:
  "readVoxels s n i vs r = Inr (vs', r') \<Longrightarrow> rsize r' \<le> rsize r"
proof (induction s n i vs r rule: readVoxels.induct)
  case (1 s n i vs r)
  show ?case
  proof (cases "i < n")
    case True
    with "1.prems" obtain vX r1 vY r2 vZ r3 vI r4 where
      a: "binary_Read_uint8 r = Inr (vX, r1)" and b: "binary_Read_uint8 r1 = Inr (vY, r2)"
      and c: "binary_Read_uint8 r2 = Inr (vZ, r3)" and d: "binary_Read_uint8 r3 = Inr (vI, r4)"
      and e: "readVoxels s n (i + 1) (vs[unat i := Some \<lparr>X = vX, Y = vY, Z = vZ, Index = vI\<rparr>]) r4 = Inr (vs', r')"
      by (simp split: sum.splits prod.splits)
    from "1.IH" [OF True a refl b refl c refl d refl e] have "rsize r' \<le> rsize r4" .
    with a b c d show ?thesis by (auto dest!: binary_Read_uint8_rsize)
  next
    case False
    with "1.prems" show ?thesis by simp
  qed
qed

lemma readColors_rsize:
  "readColors s i vs r = Inr (vs', r') \<Longrightarrow> rsize r' \<le> rsize r"
proof (induction s i vs r rule: readColors.induct)
  case (1 s i vs r)
  show ?case
  proof (cases "i < paletteSize")
    case True
    with "1.prems" obtain vX r1 vY r2 vZ r3 vI r4 where
      a: "binary_Read_uint8 r = Inr (vX, r1)" and b: "binary_Read_uint8 r1 = Inr (vY, r2)"
      and c: "binary_Read_uint8 r2 = Inr (vZ, r3)" and d: "binary_Read_uint8 r3 = Inr (vI, r4)"
      and e: "readColors s (i + 1) (vs[i := Some \<lparr>R = vX, G = vY, B = vZ, A = vI\<rparr>]) r4 = Inr (vs', r')"
      by (simp split: sum.splits prod.splits)
    from "1.IH" [OF True a refl b refl c refl d refl e] have "rsize r' \<le> rsize r4" .
    with a b c d show ?thesis by (auto dest!: binary_Read_uint8_rsize)
  next
    case False
    with "1.prems" show ?thesis by simp
  qed
qed

lemma skipContents_rsize:
  "skipContents s n t arr r = Inr r' \<Longrightarrow> rsize r' \<le> rsize r"
proof (induction s n t arr r rule: skipContents.induct)
  case (1 s n t arr r)
  show ?case
  proof (cases "t < unat n")
    case True
    with "1.prems" obtain bs r1 where
      a: "Reader_Read 4 r = Inr (bs, r1)"
      and e: "skipContents s n (t + length bs) (copyInto bs arr) r1 = Inr r'"
      by (simp split: sum.splits prod.splits)
    from "1.IH" [OF True a refl e] have "rsize r' \<le> rsize r1" .
    moreover have "rsize r1 < rsize r" by (rule Reader_Read_rsize [OF _ a]) simp
    ultimately show ?thesis by simp
  next
    case False
    with "1.prems" show ?thesis by simp
  qed
qed

lemma readSIZE_rsize:
  assumes "readSIZE cid n r vf = Inr (r', vf')"
  shows "rsize r' \<le> rsize r"
proof -
  from assms have n: "n = 12" by (auto simp: readSIZE_def split: if_splits)
  obtain sx r1 where a: "binary_Read_uint32 r = Inr (sx, r1)"
    using assms n by (cases "binary_Read_uint32 r") (auto simp: readSIZE_def)
  obtain sy r2 where b: "binary_Read_uint32 r1 = Inr (sy, r2)"
    using assms n a by (cases "binary_Read_uint32 r1") (auto simp: readSIZE_def)
  obtain sz r3 where c: "binary_Read_uint32 r2 = Inr (sz, r3)"
    using assms n a b by (cases "binary_Read_uint32 r2") (auto simp: readSIZE_def)
  from assms n a b c have "r' = r3" by (simp add: readSIZE_def)
  then show ?thesis
    using binary_Read_uint32_rsize [OF a] binary_Read_uint32_rsize [OF b]
      binary_Read_uint32_rsize [OF c] by simp
qed

lemma readXYZI_rsize:
  assumes "readXYZI cid r vf = Inr (r', vf')"
  shows "rsize r' \<le> rsize r"
proof -
  obtain n r1 where a: "binary_Read_uint32 r = Inr (n, r1)"
    using assms by (cases "binary_Read_uint32 r") (auto simp: readXYZI_def)
  obtain vs r2 where b: "readVoxels cid n 0 (replicate (unat n) None) r1 = Inr (vs, r2)"
    using assms a by (cases "readVoxels cid n 0 (replicate (unat n) None) r1") (auto simp: readXYZI_def)
  from assms a b have "r' = r2" by (simp add: readXYZI_def)
  then show ?thesis
    using binary_Read_uint32_rsize [OF a] readVoxels_rsize [OF b] by simp
qed

lemma readRGBA_rsize:
  assumes "readRGBA cid r vf = Inr (r', vf')"
  shows "rsize r' \<le> rsize r"
proof -
  obtain vs r2 where b: "readColors cid 0 (replicate 256 None) r = Inr (vs, r2)"
    using assms by (cases "readColors cid 0 (replicate 256 None) r") (auto simp: readRGBA_def)
  from assms b have "r' = r2" by (simp add: readRGBA_def)
  then show ?thesis using readColors_rsize [OF b] by simp
qed

lemma readPayload_rsize:
  assumes "readPayload cid n r vf = Inr (r', vf')"
  shows "rsize r' \<le> rsize r"
proof (cases "0 < n")
  case False
  with assms show ?thesis by (simp add: readPayload_def)
next
  case True
  show ?thesis
  proof (cases "cid = ascii ''SIZE''")
    case True
    with assms \<open>0 < n\<close> have "readSIZE cid n r vf = Inr (r', vf')"
      by (simp add: readPayload_def)
    then show ?thesis by (rule readSIZE_rsize)
  next
    case nsize: False
    show ?thesis
    proof (cases "cid = ascii ''XYZI''")
      case True
      with assms \<open>0 < n\<close> nsize have "readXYZI cid r vf = Inr (r', vf')"
        by (simp add: readPayload_def)
      then show ?thesis by (rule readXYZI_rsize)
    next
      case nxyzi: False
      show ?thesis
      proof (cases "cid = ascii ''RGBA''")
        case True
        with assms \<open>0 < n\<close> nsize nxyzi have "readRGBA cid r vf = Inr (r', vf')"
          by (simp add: readPayload_def)
        then show ?thesis by (rule readRGBA_rsize)
      next
        case False
        with assms \<open>0 < n\<close> nsize nxyzi have "skipContents cid n 0 cid r = Inr r'"
          by (cases "skipContents cid n 0 cid r") (simp_all add: readPayload_def)
        then show ?thesis by (rule skipContents_rsize)
      qed
    qed
  qed
qed

subsection \<open>readChunk (lines 115-255)\<close>

text \<open>
  \<open>readChunk\<close> returns the result record as well when it fails: the Go function writes through
  the pointer \<^verbatim>\<open>voxFile\<close>, so what earlier chunks stored is still there after an error.
  The \<^verbatim>\<open>bytesRead\<close> of a failing call is 0 in Go and is never looked at; the model has no
  number beside the error. The count of the read on line 119 is dropped, as in Go:
  \<^verbatim>\<open>chunkID\<close> is the zeroed array with the bytes read over its front.
  \<open>readChildren\<close> is the loop of lines 245-252.
\<close>

function readChunk :: "Reader \<Rightarrow> VoxFile \<Rightarrow> (error + (uint32 \<times> Reader)) \<times> VoxFile"
  and readChildren :: "uint32 \<Rightarrow> Reader \<Rightarrow> VoxFile \<Rightarrow> (error + Reader) \<times> VoxFile" where
  "readChunk r voxFile =
     (case Reader_Read 4 r of
        Inl e \<Rightarrow> (Inl (ErrChunkID e), voxFile)
      | Inr (bs, r1) \<Rightarrow>
     (case binary_Read_uint32 r1 of
        Inl e \<Rightarrow> (Inl (ErrChunkSize (copyInto bs [0, 0, 0, 0]) e), voxFile)
      | Inr (chunkSize, r2) \<Rightarrow>
     (case binary_Read_uint32 r2 of
        Inl e \<Rightarrow> (Inl (ErrChildrenSize (copyInto bs [0, 0, 0, 0]) e), voxFile)
      | Inr (chunkChildrenSize, r3) \<Rightarrow>
     (case readPayload (copyInto bs [0, 0, 0, 0]) chunkSize r3 voxFile of
        Inl e \<Rightarrow> (Inl e, voxFile)
      | Inr (r4, voxFile1) \<Rightarrow>
     (case readChildren chunkChildrenSize r4 voxFile1 of
        (Inl e, voxFile2) \<Rightarrow> (Inl e, voxFile2)
      | (Inr r5, voxFile2) \<Rightarrow> (Inr (chunkSize + 12, r5), voxFile2))))))"
| "readChildren remainingBytes r voxFile =
     (if remainingBytes > 0 then
        (case readChunk r voxFile of
           (Inl e, voxFile1) \<Rightarrow> (Inl e, voxFile1)
         | (Inr (childReadSize, r1), voxFile1) \<Rightarrow>
             readChildren (remainingBytes - childReadSize) r1 voxFile1)
      else (Inr r, voxFile))"
  apply pat_completeness
  apply (simp_all only: sum.inject prod.inject sum.distinct)
  done

lemma readChunk_readChildren_smaller:
  "readChunk_readChildren_dom (Inl (r, vf)) \<Longrightarrow>
     readChunk r vf = (Inr (n, r'), vf') \<Longrightarrow> rsize r' < rsize r"
  "readChunk_readChildren_dom (Inr (remainingBytes, r, vf)) \<Longrightarrow>
     readChildren remainingBytes r vf = (Inr r'', vf'') \<Longrightarrow> rsize r'' \<le> rsize r"
proof (induction arbitrary: n r' vf' and r'' vf'' rule: readChunk_readChildren.pinduct)
  case (1 r voxFile)
  note eq = readChunk.psimps [OF "1.hyps"]
  obtain bs r1 where a: "Reader_Read 4 r = Inr (bs, r1)"
    using "1.prems" eq by (cases "Reader_Read 4 r") auto
  obtain chunkSize r2 where b: "binary_Read_uint32 r1 = Inr (chunkSize, r2)"
    using "1.prems" eq a by (cases "binary_Read_uint32 r1") auto
  obtain ccs r3 where c: "binary_Read_uint32 r2 = Inr (ccs, r3)"
    using "1.prems" eq a b by (cases "binary_Read_uint32 r2") auto
  obtain r4 vf1 where d: "readPayload (copyInto bs [0, 0, 0, 0]) chunkSize r3 voxFile = Inr (r4, vf1)"
    using "1.prems" eq a b c
    by (cases "readPayload (copyInto bs [0, 0, 0, 0]) chunkSize r3 voxFile") auto
  have e: "readChildren ccs r4 vf1 = (Inr r', vf')"
  proof (cases "readChildren ccs r4 vf1")
    case (Pair res vf2)
    with "1.prems" eq a b c d show ?thesis by (cases res) auto
  qed
  from "1.IH" [OF a refl b refl c refl d refl e] have "rsize r' \<le> rsize r4" .
  moreover from d have "rsize r4 \<le> rsize r3" by (rule readPayload_rsize)
  moreover from c have "rsize r3 < rsize r2" by (rule binary_Read_uint32_rsize)
  moreover from b have "rsize r2 < rsize r1" by (rule binary_Read_uint32_rsize)
  moreover have "rsize r1 < rsize r" by (rule Reader_Read_rsize [OF _ a]) simp
  ultimately show ?case by simp
next
  case (2 remainingBytes r voxFile)
  note eq = readChildren.psimps [OF "2.hyps"]
  show ?case
  proof (cases "0 < remainingBytes")
    case True
    obtain res vf1 where p: "readChunk r voxFile = (res, vf1)"
      by (cases "readChunk r voxFile") auto
    obtain k r1 where a: "readChunk r voxFile = (Inr (k, r1), vf1)"
      using "2.prems" eq True p by (cases res) auto
    have b: "readChildren (remainingBytes - k) r1 vf1 = (Inr r'', vf'')"
      using "2.prems" eq True a by simp
    from "2.IH"(1) [OF True a] have "rsize r1 < rsize r" .
    moreover from "2.IH"(2) [OF True a [symmetric] refl refl b] have "rsize r'' \<le> rsize r1" .
    ultimately show ?thesis by simp
  next
    case False
    with "2.prems" eq show ?thesis by simp
  qed
qed

text \<open>
  Every chunk consumes the bytes of its header or a read of the underlying reader, so each round
  of the children loop starts on a smaller input: the recursion ends on every input.
\<close>

termination readChunk
proof (relation "measure (\<lambda>x. case x of Inl (r, voxFile) \<Rightarrow> 2 * rsize r + 1
                                      | Inr (n, r, voxFile) \<Rightarrow> 2 * rsize r + 2)", goal_cases)
  case 1
  show ?case by (rule wf_measure)
next
  case (2 r voxFile b x y ba xa ya bb xb yb bc xc yc)
  from 2 have rd: "Reader_Read 4 r = Inr (x, y)" by simp
  have l1: "rsize y < rsize r" by (rule Reader_Read_rsize [OF _ rd]) simp
  from 2 have "binary_Read_uint32 y = Inr (xa, ya)" by simp
  then have l2: "rsize ya < rsize y" by (rule binary_Read_uint32_rsize)
  from 2 have "binary_Read_uint32 ya = Inr (xb, yb)" by simp
  then have l3: "rsize yb < rsize ya" by (rule binary_Read_uint32_rsize)
  from 2 have "readPayload (copyInto x [0, 0, 0, 0]) xa yb voxFile = Inr (xc, yc)" by simp
  then have l4: "rsize xc \<le> rsize yb" by (rule readPayload_rsize)
  from l1 l2 l3 l4 show ?case by simp
next
  case (3 remainingBytes r voxFile)
  show ?case by simp
next
  case (4 remainingBytes r voxFile x y b xa ya)
  from 4 have dom: "readChunk_readChildren_dom (Inl (r, voxFile))"
    and res: "readChunk r voxFile = (Inr (xa, ya), y)" by simp_all
  have "rsize ya < rsize r" by (rule readChunk_readChildren_smaller(1) [OF dom res])
  then show ?case by simp
qed

subsection \<open>Decode (lines 81-113)\<close>

text \<open>
  The magic string and the version number, lines 86-104. \<open>c\<close> of line 88 is the number of
  bytes that the read returned, and \<open>magic\<close> the zeroed array with these bytes over its front.
\<close>

definition Decode_header :: "Reader \<Rightarrow> error + (uint32 \<times> Reader)" where
  "Decode_header r =
     (case Reader_Read 4 r of
        Inl e \<Rightarrow> Inl (ErrNotVox e)
      | Inr (bs, r1) \<Rightarrow>
          if length bs \<noteq> 4 \<or> copyInto bs [0, 0, 0, 0] ! 0 \<noteq> of_char CHR ''V''
               \<or> copyInto bs [0, 0, 0, 0] ! 1 \<noteq> of_char CHR ''O''
               \<or> copyInto bs [0, 0, 0, 0] ! 2 \<noteq> of_char CHR ''X''
               \<or> copyInto bs [0, 0, 0, 0] ! 3 \<noteq> of_char CHR '' ''
          then Inl (ErrMagic (copyInto bs [0, 0, 0, 0]))
          else (case binary_Read_uint32 r1 of
                  Inl e \<Rightarrow> Inl (ErrVersionRead e)
                | Inr (version, r2) \<Rightarrow>
                    if version \<noteq> CurrentVersion
                    then Inl (ErrVersionMismatch version CurrentVersion)
                    else Inr (version, r2)))"

text \<open>
  Go returns the pair \<^verbatim>\<open>(*VoxFile, error)\<close>: \<open>None\<close> is \<^verbatim>\<open>nil\<close> in either place.
  Lines 107-112 run whatever \<open>readChunk\<close> returned.
\<close>

definition Decode :: "Reader \<Rightarrow> VoxFile option \<times> error option" where
  "Decode r =
     (case Decode_header r of
        Inl e \<Rightarrow> (None, Some e)
      | Inr (version, r2) \<Rightarrow>
          (case readChunk r2 (new_VoxFile\<lparr>Version := version\<rparr>) of
             (res, voxelFile) \<Rightarrow>
               (Some (voxelFile\<lparr>Palette := instancePalette defaultPalette\<rparr>),
                case res of Inl e \<Rightarrow> Some e | Inr _ \<Rightarrow> None)))"

subsection \<open>Vocabulary of the properties\<close>

text \<open>
  The eight bytes of a valid header: the signature and the version 150, low byte first.
\<close>

definition voxHeader :: "byte list" where
  "voxHeader = ascii ''VOX '' @ [150, 0, 0, 0]"

text \<open>
  The records that a payload spells out, following the format: every four consecutive bytes are
  one color (R, G, B, A) or one voxel (X, Y, Z, palette index), in the order of the file.
  Bytes left over after the last full record are not a record.
\<close>

fun spec_colors :: "byte list \<Rightarrow> Color list" where
  "spec_colors (r # g # b # a # bs) = \<lparr>R = r, G = g, B = b, A = a\<rparr> # spec_colors bs"
| "spec_colors bs = []"

fun spec_voxels :: "byte list \<Rightarrow> Voxel list" where
  "spec_voxels (x # y # z # i # bs) = \<lparr>X = x, Y = y, Z = z, Index = i\<rparr> # spec_voxels bs"
| "spec_voxels bs = []"

text \<open>
  The chunk tree of the file format: an identifier, the payload bytes and the nested chunks.
  A tree is written out as the format lays it down: identifier, payload size, total size of
  the nested chunks (both sizes 32 bit, low byte first), the payload, then the nested chunks one
  after the other. \<open>spec_consumed\<close> is the size that the byte accounting of the
  specification asks the reader to return for a chunk: 12, plus the payload size, plus the
  sizes returned for its direct children.
\<close>

datatype chunk = Chunk (chunk_id: "byte list") (payload: "byte list") (children: "chunk list")

definition PutUint32 :: "nat \<Rightarrow> byte list" where
  "PutUint32 n = [of_nat n, of_nat (n div 256), of_nat (n div 65536), of_nat (n div 16777216)]"

fun encode :: "chunk \<Rightarrow> byte list" where
  "encode (Chunk i p cs) =
     i @ PutUint32 (length p) @ PutUint32 (length (concat (map encode cs))) @ p @ concat (map encode cs)"

fun spec_consumed :: "chunk \<Rightarrow> nat" where
  "spec_consumed (Chunk i p cs) = 12 + length p + sum_list (map spec_consumed cs)"

text \<open>
  The default palette written out color by color: entry i holds the bytes 0, 1, 2 and 3 of the
  i-th packed value of the table on lines 276-292 as R, G, B and A.
\<close>

definition rgba :: "byte \<Rightarrow> byte \<Rightarrow> byte \<Rightarrow> byte \<Rightarrow> Color" where
  "rgba r g b a = \<lparr>R = r, G = g, B = b, A = a\<rparr>"

definition defaultColors :: "Color list" where
  "defaultColors = [
    rgba 0x00 0x00 0x00 0x00, rgba 0xff 0xff 0xff 0xff, rgba 0xff 0xff 0xcc 0xff, rgba 0xff 0xff 0x99 0xff,
    rgba 0xff 0xff 0x66 0xff, rgba 0xff 0xff 0x33 0xff, rgba 0xff 0xff 0x00 0xff, rgba 0xff 0xcc 0xff 0xff,
    rgba 0xff 0xcc 0xcc 0xff, rgba 0xff 0xcc 0x99 0xff, rgba 0xff 0xcc 0x66 0xff, rgba 0xff 0xcc 0x33 0xff,
    rgba 0xff 0xcc 0x00 0xff, rgba 0xff 0x99 0xff 0xff, rgba 0xff 0x99 0xcc 0xff, rgba 0xff 0x99 0x99 0xff,
    rgba 0xff 0x99 0x66 0xff, rgba 0xff 0x99 0x33 0xff, rgba 0xff 0x99 0x00 0xff, rgba 0xff 0x66 0xff 0xff,
    rgba 0xff 0x66 0xcc 0xff, rgba 0xff 0x66 0x99 0xff, rgba 0xff 0x66 0x66 0xff, rgba 0xff 0x66 0x33 0xff,
    rgba 0xff 0x66 0x00 0xff, rgba 0xff 0x33 0xff 0xff, rgba 0xff 0x33 0xcc 0xff, rgba 0xff 0x33 0x99 0xff,
    rgba 0xff 0x33 0x66 0xff, rgba 0xff 0x33 0x33 0xff, rgba 0xff 0x33 0x00 0xff, rgba 0xff 0x00 0xff 0xff,
    rgba 0xff 0x00 0xcc 0xff, rgba 0xff 0x00 0x99 0xff, rgba 0xff 0x00 0x66 0xff, rgba 0xff 0x00 0x33 0xff,
    rgba 0xff 0x00 0x00 0xff, rgba 0xcc 0xff 0xff 0xff, rgba 0xcc 0xff 0xcc 0xff, rgba 0xcc 0xff 0x99 0xff,
    rgba 0xcc 0xff 0x66 0xff, rgba 0xcc 0xff 0x33 0xff, rgba 0xcc 0xff 0x00 0xff, rgba 0xcc 0xcc 0xff 0xff,
    rgba 0xcc 0xcc 0xcc 0xff, rgba 0xcc 0xcc 0x99 0xff, rgba 0xcc 0xcc 0x66 0xff, rgba 0xcc 0xcc 0x33 0xff,
    rgba 0xcc 0xcc 0x00 0xff, rgba 0xcc 0x99 0xff 0xff, rgba 0xcc 0x99 0xcc 0xff, rgba 0xcc 0x99 0x99 0xff,
    rgba 0xcc 0x99 0x66 0xff, rgba 0xcc 0x99 0x33 0xff, rgba 0xcc 0x99 0x00 0xff, rgba 0xcc 0x66 0xff 0xff,
    rgba 0xcc 0x66 0xcc 0xff, rgba 0xcc 0x66 0x99 0xff, rgba 0xcc 0x66 0x66 0xff, rgba 0xcc 0x66 0x33 0xff,
    rgba 0xcc 0x66 0x00 0xff, rgba 0xcc 0x33 0xff 0xff, rgba 0xcc 0x33 0xcc 0xff, rgba 0xcc 0x33 0x99 0xff,
    rgba 0xcc 0x33 0x66 0xff, rgba 0xcc 0x33 0x33 0xff, rgba 0xcc 0x33 0x00 0xff, rgba 0xcc 0x00 0xff 0xff,
    rgba 0xcc 0x00 0xcc 0xff, rgba 0xcc 0x00 0x99 0xff, rgba 0xcc 0x00 0x66 0xff, rgba 0xcc 0x00 0x33 0xff,
    rgba 0xcc 0x00 0x00 0xff, rgba 0x99 0xff 0xff 0xff, rgba 0x99 0xff 0xcc 0xff, rgba 0x99 0xff 0x99 0xff,
    rgba 0x99 0xff 0x66 0xff, rgba 0x99 0xff 0x33 0xff, rgba 0x99 0xff 0x00 0xff, rgba 0x99 0xcc 0xff 0xff,
    rgba 0x99 0xcc 0xcc 0xff, rgba 0x99 0xcc 0x99 0xff, rgba 0x99 0xcc 0x66 0xff, rgba 0x99 0xcc 0x33 0xff,
    rgba 0x99 0xcc 0x00 0xff, rgba 0x99 0x99 0xff 0xff, rgba 0x99 0x99 0xcc 0xff, rgba 0x99 0x99 0x99 0xff,
    rgba 0x99 0x99 0x66 0xff, rgba 0x99 0x99 0x33 0xff, rgba 0x99 0x99 0x00 0xff, rgba 0x99 0x66 0xff 0xff,
    rgba 0x99 0x66 0xcc 0xff, rgba 0x99 0x66 0x99 0xff, rgba 0x99 0x66 0x66 0xff, rgba 0x99 0x66 0x33 0xff,
    rgba 0x99 0x66 0x00 0xff, rgba 0x99 0x33 0xff 0xff, rgba 0x99 0x33 0xcc 0xff, rgba 0x99 0x33 0x99 0xff,
    rgba 0x99 0x33 0x66 0xff, rgba 0x99 0x33 0x33 0xff, rgba 0x99 0x33 0x00 0xff, rgba 0x99 0x00 0xff 0xff,
    rgba 0x99 0x00 0xcc 0xff, rgba 0x99 0x00 0x99 0xff, rgba 0x99 0x00 0x66 0xff, rgba 0x99 0x00 0x33 0xff,
    rgba 0x99 0x00 0x00 0xff, rgba 0x66 0xff 0xff 0xff, rgba 0x66 0xff 0xcc 0xff, rgba 0x66 0xff 0x99 0xff,
    rgba 0x66 0xff 0x66 0xff, rgba 0x66 0xff 0x33 0xff, rgba 0x66 0xff 0x00 0xff, rgba 0x66 0xcc 0xff 0xff,
    rgba 0x66 0xcc 0xcc 0xff, rgba 0x66 0xcc 0x99 0xff, rgba 0x66 0xcc 0x66 0xff, rgba 0x66 0xcc 0x33 0xff,
    rgba 0x66 0xcc 0x00 0xff, rgba 0x66 0x99 0xff 0xff, rgba 0x66 0x99 0xcc 0xff, rgba 0x66 0x99 0x99 0xff,
    rgba 0x66 0x99 0x66 0xff, rgba 0x66 0x99 0x33 0xff, rgba 0x66 0x99 0x00 0xff, rgba 0x66 0x66 0xff 0xff,
    rgba 0x66 0x66 0xcc 0xff, rgba 0x66 0x66 0x99 0xff, rgba 0x66 0x66 0x66 0xff, rgba 0x66 0x66 0x33 0xff,
    rgba 0x66 0x66 0x00 0xff, rgba 0x66 0x33 0xff 0xff, rgba 0x66 0x33 0xcc 0xff, rgba 0x66 0x33 0x99 0xff,
    rgba 0x66 0x33 0x66 0xff, rgba 0x66 0x33 0x33 0xff, rgba 0x66 0x33 0x00 0xff, rgba 0x66 0x00 0xff 0xff,
    rgba 0x66 0x00 0xcc 0xff, rgba 0x66 0x00 0x99 0xff, rgba 0x66 0x00 0x66 0xff, rgba 0x66 0x00 0x33 0xff,
    rgba 0x66 0x00 0x00 0xff, rgba 0x33 0xff 0xff 0xff, rgba 0x33 0xff 0xcc 0xff, rgba 0x33 0xff 0x99 0xff,
    rgba 0x33 0xff 0x66 0xff, rgba 0x33 0xff 0x33 0xff, rgba 0x33 0xff 0x00 0xff, rgba 0x33 0xcc 0xff 0xff,
    rgba 0x33 0xcc 0xcc 0xff, rgba 0x33 0xcc 0x99 0xff, rgba 0x33 0xcc 0x66 0xff, rgba 0x33 0xcc 0x33 0xff,
    rgba 0x33 0xcc 0x00 0xff, rgba 0x33 0x99 0xff 0xff, rgba 0x33 0x99 0xcc 0xff, rgba 0x33 0x99 0x99 0xff,
    rgba 0x33 0x99 0x66 0xff, rgba 0x33 0x99 0x33 0xff, rgba 0x33 0x99 0x00 0xff, rgba 0x33 0x66 0xff 0xff,
    rgba 0x33 0x66 0xcc 0xff, rgba 0x33 0x66 0x99 0xff, rgba 0x33 0x66 0x66 0xff, rgba 0x33 0x66 0x33 0xff,
    rgba 0x33 0x66 0x00 0xff, rgba 0x33 0x33 0xff 0xff, rgba 0x33 0x33 0xcc 0xff, rgba 0x33 0x33 0x99 0xff,
    rgba 0x33 0x33 0x66 0xff, rgba 0x33 0x33 0x33 0xff, rgba 0x33 0x33 0x00 0xff, rgba 0x33 0x00 0xff 0xff,
    rgba 0x33 0x00 0xcc 0xff, rgba 0x33 0x00 0x99 0xff, rgba 0x33 0x00 0x66 0xff, rgba 0x33 0x00 0x33 0xff,
    rgba 0x33 0x00 0x00 0xff, rgba 0x00 0xff 0xff 0xff, rgba 0x00 0xff 0xcc 0xff, rgba 0x00 0xff 0x99 0xff,
    rgba 0x00 0xff 0x66 0xff, rgba 0x00 0xff 0x33 0xff, rgba 0x00 0xff 0x00 0xff, rgba 0x00 0xcc 0xff 0xff,
    rgba 0x00 0xcc 0xcc 0xff, rgba 0x00 0xcc 0x99 0xff, rgba 0x00 0xcc 0x66 0xff, rgba 0x00 0xcc 0x33 0xff,
    rgba 0x00 0xcc 0x00 0xff, rgba 0x00 0x99 0xff 0xff, rgba 0x00 0x99 0xcc 0xff, rgba 0x00 0x99 0x99 0xff,
    rgba 0x00 0x99 0x66 0xff, rgba 0x00 0x99 0x33 0xff, rgba 0x00 0x99 0x00 0xff, rgba 0x00 0x66 0xff 0xff,
    rgba 0x00 0x66 0xcc 0xff, rgba 0x00 0x66 0x99 0xff, rgba 0x00 0x66 0x66 0xff, rgba 0x00 0x66 0x33 0xff,
    rgba 0x00 0x66 0x00 0xff, rgba 0x00 0x33 0xff 0xff, rgba 0x00 0x33 0xcc 0xff, rgba 0x00 0x33 0x99 0xff,
    rgba 0x00 0x33 0x66 0xff, rgba 0x00 0x33 0x33 0xff, rgba 0x00 0x33 0x00 0xff, rgba 0x00 0x00 0xff 0xff,
    rgba 0x00 0x00 0xcc 0xff, rgba 0x00 0x00 0x99 0xff, rgba 0x00 0x00 0x66 0xff, rgba 0x00 0x00 0x33 0xff,
    rgba 0xee 0x00 0x00 0xff, rgba 0xdd 0x00 0x00 0xff, rgba 0xbb 0x00 0x00 0xff, rgba 0xaa 0x00 0x00 0xff,
    rgba 0x88 0x00 0x00 0xff, rgba 0x77 0x00 0x00 0xff, rgba 0x55 0x00 0x00 0xff, rgba 0x44 0x00 0x00 0xff,
    rgba 0x22 0x00 0x00 0xff, rgba 0x11 0x00 0x00 0xff, rgba 0x00 0xee 0x00 0xff, rgba 0x00 0xdd 0x00 0xff,
    rgba 0x00 0xbb 0x00 0xff, rgba 0x00 0xaa 0x00 0xff, rgba 0x00 0x88 0x00 0xff, rgba 0x00 0x77 0x00 0xff,
    rgba 0x00 0x55 0x00 0xff, rgba 0x00 0x44 0x00 0xff, rgba 0x00 0x22 0x00 0xff, rgba 0x00 0x11 0x00 0xff,
    rgba 0x00 0x00 0xee 0xff, rgba 0x00 0x00 0xdd 0xff, rgba 0x00 0x00 0xbb 0xff, rgba 0x00 0x00 0xaa 0xff,
    rgba 0x00 0x00 0x88 0xff, rgba 0x00 0x00 0x77 0xff, rgba 0x00 0x00 0x55 0xff, rgba 0x00 0x00 0x44 0xff,
    rgba 0x00 0x00 0x22 0xff, rgba 0x00 0x00 0x11 0xff, rgba 0xee 0xee 0xee 0xff, rgba 0xdd 0xdd 0xdd 0xff,
    rgba 0xbb 0xbb 0xbb 0xff, rgba 0xaa 0xaa 0xaa 0xff, rgba 0x88 0x88 0x88 0xff, rgba 0x77 0x77 0x77 0xff,
    rgba 0x55 0x55 0x55 0xff, rgba 0x44 0x44 0x44 0xff, rgba 0x22 0x22 0x22 0xff, rgba 0x11 0x11 0x11 0xff]"

section \<open>Properties\<close>

declare instancePalette_loop.simps [simp del] readVoxels.simps [simp del] readColors.simps [simp del]
  skipContents.simps [simp del] readChunk.simps [simp del] readChildren.simps [simp del]

lemma instancePalette_loop_eq:
  "i \<le> 256 \<Longrightarrow> length palette = 256 \<Longrightarrow> length p = 256 \<Longrightarrow>
     instancePalette_loop p i palette = take i palette @ map (Some \<circ> unpackColor) (drop i p)"
proof (induction p i palette rule: instancePalette_loop.induct)
  case (1 p i palette)
  show ?case
  proof (cases "i < paletteSize")
    case True
    then have i: "i < 256" by (simp add: paletteSize_def)
    let ?pal = "palette[i := Some (unpackColor (p ! i))]"
    have "instancePalette_loop p i palette = instancePalette_loop p (i + 1) ?pal"
      using True by (subst instancePalette_loop.simps) simp
    also have "\<dots> = take (i + 1) ?pal @ map (Some \<circ> unpackColor) (drop (i + 1) p)"
      using "1.IH" [OF True] i "1.prems" by simp
    also have "take (i + 1) ?pal = take i palette @ [Some (unpackColor (p ! i))]"
      using i "1.prems" by (simp add: take_Suc_conv_app_nth)
    also have "(take i palette @ [Some (unpackColor (p ! i))]) @ map (Some \<circ> unpackColor) (drop (i + 1) p)
        = take i palette @ map (Some \<circ> unpackColor) (drop i p)"
      using i "1.prems" by (simp add: Cons_nth_drop_Suc [symmetric])
    finally show ?thesis .
  next
    case False
    with "1.prems" have "i = 256" by (simp add: paletteSize_def)
    with False "1.prems" show ?thesis
      by (subst instancePalette_loop.simps) simp
  qed
qed

lemma instancePalette_map:
  "length p = 256 \<Longrightarrow> instancePalette p = map (Some \<circ> unpackColor) p"
  by (simp add: instancePalette_def instancePalette_loop_eq)

lemma length_defaultPalette: "length defaultPalette = 256"
  by (simp add: defaultPalette_def)

lemma take3_defaultPalette: "take 3 defaultPalette = [0x00000000, 0xffffffff, 0xffccffff]"
  by (simp add: defaultPalette_def)

lemma byte_masks:
  "(0x000000ff::uint32) = mask 8"
  "(0x0000ff00::uint32) = push_bit 8 (mask 8)"
  "(0x00ff0000::uint32) = push_bit 16 (mask 8)"
  "(0xff000000::uint32) = push_bit 24 (mask 8)"
  by (simp_all add: mask_eq_exp_minus_1 push_bit_eq_mult)

lemma unpackColor_R: "R (unpackColor val) = ucast val"
  unfolding unpackColor_def byte_masks
  by simp (rule bit_word_eqI, auto simp add: bit_simps dest: bit_imp_le_length)

lemma unpackColor_G: "G (unpackColor val) = ucast (drop_bit 8 val)"
  unfolding unpackColor_def byte_masks
  by simp (rule bit_word_eqI, auto simp add: bit_simps dest: bit_imp_le_length)

lemma unpackColor_B: "B (unpackColor val) = ucast (drop_bit 16 val)"
  unfolding unpackColor_def byte_masks
  by simp (rule bit_word_eqI, auto simp add: bit_simps dest: bit_imp_le_length)

lemma unpackColor_A: "A (unpackColor val) = ucast (drop_bit 24 val)"
  unfolding unpackColor_def byte_masks
  by simp (rule bit_word_eqI, auto simp add: bit_simps dest: bit_imp_le_length)

lemma instancePalette_defaultPalette:
  "instancePalette defaultPalette = map (Some \<circ> unpackColor) defaultPalette"
  by (rule instancePalette_map [OF length_defaultPalette])

lemma defaultPalette_entries:
  "defaultPalette ! 0 = 0x00000000" "defaultPalette ! 1 = 0xffffffff" "defaultPalette ! 2 = 0xffccffff"
proof -
  have "defaultPalette ! 0 = take 3 defaultPalette ! 0" "defaultPalette ! 1 = take 3 defaultPalette ! 1"
    "defaultPalette ! 2 = take 3 defaultPalette ! 2" by simp_all
  then show "defaultPalette ! 0 = 0x00000000" "defaultPalette ! 1 = 0xffffffff"
    "defaultPalette ! 2 = 0xffccffff"
    by (simp_all add: take3_defaultPalette)
qed

lemma instancePalette_entries:
  "instancePalette defaultPalette ! 0 = Some \<lparr>R = 0, G = 0, B = 0, A = 0\<rparr>"
  "instancePalette defaultPalette ! 1 = Some \<lparr>R = 255, G = 255, B = 255, A = 255\<rparr>"
  "instancePalette defaultPalette ! 2 = Some \<lparr>R = 255, G = 255, B = 204, A = 255\<rparr>"
proof -
  have e1: "defaultPalette ! Suc 0 = 0xffffffff"
    using defaultPalette_entries(2) by simp
  show "instancePalette defaultPalette ! 0 = Some \<lparr>R = 0, G = 0, B = 0, A = 0\<rparr>"
    by (simp add: instancePalette_defaultPalette length_defaultPalette defaultPalette_entries(1)
        unpackColor_def)
  show "instancePalette defaultPalette ! 1 = Some \<lparr>R = 255, G = 255, B = 255, A = 255\<rparr>"
    by (simp add: instancePalette_defaultPalette length_defaultPalette e1 unpackColor_def)
  show "instancePalette defaultPalette ! 2 = Some \<lparr>R = 255, G = 255, B = 204, A = 255\<rparr>"
    by (simp add: instancePalette_defaultPalette length_defaultPalette defaultPalette_entries(3)
        unpackColor_def)
qed

subsection \<open>Evaluating the reads\<close>

lemma copyInto4: "copyInto [a, b, c, d] [0, 0, 0, 0] = [a, b, c, d]"
  by (simp add: copyInto_def)

lemma Reader_Read_end: "Reader_Read n \<lparr>buf = [], src = []\<rparr> = Inl EOF"
  by (simp add: Reader_Read_def)

lemma Reader_Read_fill:
  "Reader_Read n \<lparr>buf = [], src = piece # rest\<rparr> = Inr (take n piece, \<lparr>buf = drop n piece, src = rest\<rparr>)"
  by (simp add: Reader_Read_def)

lemma Reader_Read4_buffered:
  "Reader_Read 4 \<lparr>buf = a # b # c # d # bs, src = s\<rparr> = Inr ([a, b, c, d], \<lparr>buf = bs, src = s\<rparr>)"
  by (simp add: Reader_Read_def)

lemma ReadFull_literal:
  "k \<le> length b \<Longrightarrow> ReadFull k [] \<lparr>buf = b, src = s\<rparr> = Inr (take k b, \<lparr>buf = drop k b, src = s\<rparr>)"
  using ReadFull_buffered [of k "\<lparr>buf = b, src = s\<rparr>" "[]"] by simp

lemma binary_Read_uint32_buffered:
  "binary_Read_uint32 \<lparr>buf = a # b # c # d # bs, src = s\<rparr>
     = Inr (Uint32 [a, b, c, d], \<lparr>buf = bs, src = s\<rparr>)"
  by (simp add: binary_Read_uint32_def ReadFull_literal)

lemma binary_Read_uint32_short:
  "length b < 4 \<Longrightarrow>
     binary_Read_uint32 \<lparr>buf = b, src = []\<rparr> = Inl (if b = [] then EOF else ErrUnexpectedEOF)"
  using ReadFull_short [of "\<lparr>buf = b, src = []\<rparr>" 4 "[]"]
  by (simp add: binary_Read_uint32_def remaining_def)

lemma binary_Read_uint8_buffered:
  "binary_Read_uint8 \<lparr>buf = a # bs, src = s\<rparr> = Inr (a, \<lparr>buf = bs, src = s\<rparr>)"
  by (simp add: binary_Read_uint8_def ReadFull_literal)

lemma binary_Read_uint8_buf:
  "buf r = a # bs \<Longrightarrow> binary_Read_uint8 r = Inr (a, r\<lparr>buf := bs\<rparr>)"
  using ReadFull_buffered [of 1 r "[]"] by (simp add: binary_Read_uint8_def)

lemma binary_Read_uint8_end: "binary_Read_uint8 \<lparr>buf = [], src = []\<rparr> = Inl EOF"
  using ReadFull_short [of "\<lparr>buf = [], src = []\<rparr>" 1 "[]"]
  by (simp add: binary_Read_uint8_def remaining_def)

lemma binary_Read_uint8_complete:
  assumes "remaining r \<noteq> []"
  shows "\<exists>r'. binary_Read_uint8 r = Inr (hd (remaining r), r')"
proof -
  from assms have "1 \<le> length (remaining r)" by (cases "remaining r") simp_all
  from ReadFull_complete [OF this, of "[]"] obtain r'
    where "ReadFull 1 [] r = Inr (take 1 (remaining r), r')" by auto
  with assms show ?thesis
    by (cases "remaining r") (simp_all add: binary_Read_uint8_def)
qed

lemma binary_Read_uint32_complete:
  assumes "4 \<le> length (remaining r)"
  shows "\<exists>r'. binary_Read_uint32 r = Inr (Uint32 (take 4 (remaining r)), r')"
proof -
  from ReadFull_complete [OF assms, of "[]"] obtain r'
    where "ReadFull 4 [] r = Inr (take 4 (remaining r), r')" by auto
  then show ?thesis by (simp add: binary_Read_uint32_def)
qed

lemma Uint32_b0: "ucast (Uint32 [a, b, c, d]) = a"
  unfolding Uint32_def
  by (rule bit_word_eqI) (auto simp add: bit_simps dest: bit_imp_le_length)

lemma Uint32_b1: "ucast (drop_bit 8 (Uint32 [a, b, c, d])) = b"
  unfolding Uint32_def
  by (rule bit_word_eqI) (auto simp add: bit_simps dest: bit_imp_le_length)

lemma Uint32_b2: "ucast (drop_bit 16 (Uint32 [a, b, c, d])) = c"
  unfolding Uint32_def
  by (rule bit_word_eqI) (auto simp add: bit_simps dest: bit_imp_le_length)

lemma Uint32_b3: "ucast (drop_bit 24 (Uint32 [a, b, c, d])) = d"
  unfolding Uint32_def
  by (rule bit_word_eqI) (auto simp add: bit_simps dest: bit_imp_le_length)

lemma Uint32_150_iff: "Uint32 [a, b, c, d] = 150 \<longleftrightarrow> a = 150 \<and> b = 0 \<and> c = 0 \<and> d = 0"
proof
  assume "Uint32 [a, b, c, d] = 150"
  with Uint32_b0 [of a b c d] Uint32_b1 [of a b c d] Uint32_b2 [of a b c d] Uint32_b3 [of a b c d]
  show "a = 150 \<and> b = 0 \<and> c = 0 \<and> d = 0" by simp
next
  assume "a = 150 \<and> b = 0 \<and> c = 0 \<and> d = 0"
  then show "Uint32 [a, b, c, d] = 150" by (simp add: Uint32_def)
qed

lemma length_ge8_Cons:
  assumes "8 \<le> length (xs :: 'a list)"
  obtains a b c d e f g h r where "xs = a # b # c # d # e # f # g # h # r"
  using assms by (auto simp: numeral_eq_Suc Suc_le_length_iff)

lemma length_ge4_Cons:
  assumes "4 \<le> length (xs :: 'a list)"
  obtains a b c d r where "xs = a # b # c # d # r"
  using assms by (auto simp: numeral_eq_Suc Suc_le_length_iff)

lemma length_spec_voxels: "length bs = 4 * n \<Longrightarrow> length (spec_voxels bs) = n"
proof (induction bs arbitrary: n rule: spec_voxels.induct)
  case (1 x y z i bs)
  then obtain m where "n = Suc m" by (cases n) auto
  with 1 show ?case by simp
qed auto

lemma length_spec_colors: "length bs = 4 * n \<Longrightarrow> length (spec_colors bs) = n"
proof (induction bs arbitrary: n rule: spec_colors.induct)
  case (1 x y z i bs)
  then obtain m where "n = Suc m" by (cases n) auto
  with 1 show ?case by simp
qed auto

lemma spec_voxels_nth:
  "length bs = 4 * n \<Longrightarrow> k < n \<Longrightarrow>
     spec_voxels bs ! k
       = \<lparr>X = bs ! (4 * k), Y = bs ! (4 * k + 1), Z = bs ! (4 * k + 2), Index = bs ! (4 * k + 3)\<rparr>"
proof (induction bs arbitrary: n k rule: spec_voxels.induct)
  case (1 x y z i bs)
  then obtain m where n: "n = Suc m" by (cases n) auto
  show ?case
  proof (cases k)
    case 0
    then show ?thesis by simp
  next
    case (Suc j)
    with 1 n have "spec_voxels bs ! j
        = \<lparr>X = bs ! (4 * j), Y = bs ! (4 * j + 1), Z = bs ! (4 * j + 2), Index = bs ! (4 * j + 3)\<rparr>"
      by simp
    with Suc show ?thesis by (simp add: add.commute)
  qed
qed auto

lemma spec_colors_nth:
  "length bs = 4 * n \<Longrightarrow> k < n \<Longrightarrow>
     spec_colors bs ! k
       = \<lparr>R = bs ! (4 * k), G = bs ! (4 * k + 1), B = bs ! (4 * k + 2), A = bs ! (4 * k + 3)\<rparr>"
proof (induction bs arbitrary: n k rule: spec_colors.induct)
  case (1 x y z i bs)
  then obtain m where n: "n = Suc m" by (cases n) auto
  show ?case
  proof (cases k)
    case 0
    then show ?thesis by simp
  next
    case (Suc j)
    with 1 n have "spec_colors bs ! j
        = \<lparr>R = bs ! (4 * j), G = bs ! (4 * j + 1), B = bs ! (4 * j + 2), A = bs ! (4 * j + 3)\<rparr>"
      by simp
    with Suc show ?thesis by (simp add: add.commute)
  qed
qed auto

lemma length4_Cons:
  assumes "length (xs :: 'a list) = 4"
  obtains a b c d where "xs = [a, b, c, d]"
  using assms by (auto simp: numeral_eq_Suc length_Suc_conv)

lemma ascii_distinct:
  "ascii ''XYZI'' \<noteq> ascii ''SIZE''" "ascii ''RGBA'' \<noteq> ascii ''SIZE''"
  "ascii ''RGBA'' \<noteq> ascii ''XYZI''"
  by (simp_all add: ascii_def)

lemma ascii4:
  "ascii ''SIZE'' = [83, 73, 90, 69]" "ascii ''XYZI'' = [88, 89, 90, 73]"
  "ascii ''RGBA'' = [82, 71, 66, 65]" "ascii ''MAIN'' = [77, 65, 73, 78]"
  by (simp_all add: ascii_def)

lemma length_concat_replicate4: "length (concat (replicate n [a, b, c, d])) = 4 * n"
  by (induction n) simp_all

lemma spec_colors_replicate:
  "spec_colors (concat (replicate n [r, g, b, a])) = replicate n \<lparr>R = r, G = g, B = b, A = a\<rparr>"
  by (induction n) simp_all

lemma voxHeader_bytes: "voxHeader = [86, 79, 88, 32, 150, 0, 0, 0]"
  by (simp add: voxHeader_def ascii_def)

lemma Decode_header_buffered:
  "Decode_header \<lparr>buf = voxHeader @ b, src = s\<rparr> = Inr (150, \<lparr>buf = b, src = s\<rparr>)"
  by (simp add: voxHeader_bytes Decode_header_def Reader_Read4_buffered copyInto4
      binary_Read_uint32_buffered Uint32_150_iff CurrentVersion_def)

lemma Decode_header_delivered:
  "Decode_header (delivered ((voxHeader @ b) # s)) = Inr (150, \<lparr>buf = b, src = s\<rparr>)"
  by (simp add: voxHeader_bytes delivered_def Decode_header_def Reader_Read_fill copyInto4
      binary_Read_uint32_buffered Uint32_150_iff CurrentVersion_def)

lemma Decode_header_Inl: "Decode_header r = Inl e \<Longrightarrow> Decode r = (None, Some e)"
  by (simp add: Decode_def)

lemma Decode_header_Inr:
  "Decode_header r = Inr (v, r2) \<Longrightarrow>
     Decode r =
       (Some ((snd (readChunk r2 (new_VoxFile\<lparr>Version := v\<rparr>)))\<lparr>Palette := instancePalette defaultPalette\<rparr>),
        case fst (readChunk r2 (new_VoxFile\<lparr>Version := v\<rparr>)) of Inl e \<Rightarrow> Some e | Inr x \<Rightarrow> None)"
  by (simp add: Decode_def split: prod.splits)

lemma Decode_delivered:
  "Decode (delivered ((voxHeader @ b) # s)) =
     (Some ((snd (readChunk \<lparr>buf = b, src = s\<rparr> (new_VoxFile\<lparr>Version := 150\<rparr>)))
              \<lparr>Palette := instancePalette defaultPalette\<rparr>),
      case fst (readChunk \<lparr>buf = b, src = s\<rparr> (new_VoxFile\<lparr>Version := 150\<rparr>)) of
        Inl e \<Rightarrow> Some e | Inr x \<Rightarrow> None)"
  by (rule Decode_header_Inr [OF Decode_header_delivered])

lemma Decode_Palette:
  "Decode r = (Some vf, err) \<Longrightarrow> Palette vf = instancePalette defaultPalette"
  by (auto simp: Decode_def split: sum.splits prod.splits)

lemma readChildren_0: "readChildren 0 r vf = (Inr r, vf)"
  by (subst readChildren.simps) simp

lemma readChildren_pos:
  "0 < n \<Longrightarrow> readChildren n r vf =
     (case readChunk r vf of
        (Inl e, vf1) \<Rightarrow> (Inl e, vf1)
      | (Inr (k, r1), vf1) \<Rightarrow> readChildren (n - k) r1 vf1)"
  by (subst readChildren.simps) simp

lemma readChunk_end: "readChunk \<lparr>buf = [], src = []\<rparr> vf = (Inl (ErrChunkID EOF), vf)"
  by (subst readChunk.simps) (simp add: Reader_Read_end)

lemma readChunk_buffered:
  "readChunk \<lparr>buf = i0 # i1 # i2 # i3 # s0 # s1 # s2 # s3 # c0 # c1 # c2 # c3 # b, src = s\<rparr> vf =
     (case readPayload [i0, i1, i2, i3] (Uint32 [s0, s1, s2, s3]) \<lparr>buf = b, src = s\<rparr> vf of
        Inl e \<Rightarrow> (Inl e, vf)
      | Inr (r4, vf1) \<Rightarrow>
          (case readChildren (Uint32 [c0, c1, c2, c3]) r4 vf1 of
             (Inl e, vf2) \<Rightarrow> (Inl e, vf2)
           | (Inr r5, vf2) \<Rightarrow> (Inr (Uint32 [s0, s1, s2, s3] + 12, r5), vf2)))"
  by (subst readChunk.simps)
     (simp add: Reader_Read4_buffered copyInto4 binary_Read_uint32_buffered)

lemma readChunk_header:
  assumes "length cid = 4" "length ss = 4" "length cs = 4"
  shows "readChunk \<lparr>buf = cid @ ss @ cs @ b, src = s\<rparr> vf =
     (case readPayload cid (Uint32 ss) \<lparr>buf = b, src = s\<rparr> vf of
        Inl e \<Rightarrow> (Inl e, vf)
      | Inr (r4, vf1) \<Rightarrow>
          (case readChildren (Uint32 cs) r4 vf1 of
             (Inl e, vf2) \<Rightarrow> (Inl e, vf2)
           | (Inr r5, vf2) \<Rightarrow> (Inr (Uint32 ss + 12, r5), vf2)))"
proof -
  from assms(1) obtain i0 i1 i2 i3 where a: "cid = [i0, i1, i2, i3]" by (rule length4_Cons)
  from assms(2) obtain s0 s1 s2 s3 where b: "ss = [s0, s1, s2, s3]" by (rule length4_Cons)
  from assms(3) obtain c0 c1 c2 c3 where c: "cs = [c0, c1, c2, c3]" by (rule length4_Cons)
  show ?thesis unfolding a b c by (simp add: readChunk_buffered)
qed

lemma readChunk_short_children:
  "length b < 4 \<Longrightarrow>
     readChunk \<lparr>buf = i0 # i1 # i2 # i3 # s0 # s1 # s2 # s3 # b, src = []\<rparr> vf
       = (Inl (ErrChildrenSize [i0, i1, i2, i3] (if b = [] then EOF else ErrUnexpectedEOF)), vf)"
  by (subst readChunk.simps)
     (simp add: Reader_Read4_buffered copyInto4 binary_Read_uint32_buffered binary_Read_uint32_short)

text \<open>
  What \<open>readChunk\<close> returns when it succeeds is the declared payload size plus 12, whatever
  the payload handler and the children consumed.
\<close>

lemma readChunk_returns_declared_size:
  assumes "readChunk r vf = (Inr (n, r'), vf')"
  shows "\<exists>bs r1 chunkSize r2. Reader_Read 4 r = Inr (bs, r1)
           \<and> binary_Read_uint32 r1 = Inr (chunkSize, r2) \<and> n = chunkSize + 12"
proof -
  note eq = readChunk.simps [of r vf]
  obtain bs r1 where a: "Reader_Read 4 r = Inr (bs, r1)"
    using assms eq by (cases "Reader_Read 4 r") auto
  obtain chunkSize r2 where b: "binary_Read_uint32 r1 = Inr (chunkSize, r2)"
    using assms eq a by (cases "binary_Read_uint32 r1") auto
  obtain ccs r3 where c: "binary_Read_uint32 r2 = Inr (ccs, r3)"
    using assms eq a b by (cases "binary_Read_uint32 r2") auto
  obtain r4 vf1 where d: "readPayload (copyInto bs [0, 0, 0, 0]) chunkSize r3 vf = Inr (r4, vf1)"
    using assms eq a b c by (cases "readPayload (copyInto bs [0, 0, 0, 0]) chunkSize r3 vf") auto
  have "n = chunkSize + 12"
  proof (cases "readChildren ccs r4 vf1")
    case (Pair res vf2)
    with assms eq a b c d show ?thesis by (cases res) auto
  qed
  with a b show ?thesis by blast
qed

lemma Uint32_zero: "Uint32 [0, 0, 0, 0] = 0"
  by (simp add: Uint32_def)

lemma Uint32_small: "Uint32 [a, 0, 0, 0] = ucast a"
  by (simp add: Uint32_def)

lemma readPayload_0: "readPayload cid 0 r vf = Inr (r, vf)"
  by (simp add: readPayload_def)

lemma length_ascii4: "length (ascii [a, b, c, d]) = 4"
  by (simp add: ascii_def)

lemma Decode_empty_MAIN:
  "Decode (delivered [voxHeader @ ascii ''MAIN'' @ [0, 0, 0, 0, 0, 0, 0, 0]]) =
     (Some (new_VoxFile\<lparr>Version := 150, Palette := instancePalette defaultPalette\<rparr>), None)"
  unfolding Decode_delivered
  by (simp add: ascii4 readChunk_buffered Uint32_zero readPayload_0 readChildren_0)

subsection \<open>The loops of the handlers\<close>

lemma readColors_buffered:
  "i \<le> 256 \<Longrightarrow> length pal = 256 \<Longrightarrow> 4 * (256 - i) \<le> length (buf r) \<Longrightarrow>
     readColors cid i pal r
       = Inr (take i pal @ map Some (spec_colors (take (4 * (256 - i)) (buf r))),
              r\<lparr>buf := drop (4 * (256 - i)) (buf r)\<rparr>)"
proof (induction cid i pal r rule: readColors.induct)
  case (1 cid i pal r)
  show ?case
  proof (cases "i < paletteSize")
    case True
    then have i: "i < 256" by (simp add: paletteSize_def)
    with "1.prems" have "4 \<le> length (buf r)" by simp
    then obtain x y z w b' where r: "buf r = x # y # z # w # b'" by (rule length_ge4_Cons)
    let ?c = "Some \<lparr>R = x, G = y, B = z, A = w\<rparr>"
    let ?k = "4 * (256 - (i + 1))"
    from i have k: "4 * (256 - i) = Suc (Suc (Suc (Suc ?k)))" by simp
    from r "1.prems" i have len: "?k \<le> length b'" by simp
    have a: "binary_Read_uint8 r = Inr (x, r\<lparr>buf := y # z # w # b'\<rparr>)"
      using r by (rule binary_Read_uint8_buf)
    have b: "binary_Read_uint8 (r\<lparr>buf := y # z # w # b'\<rparr>) = Inr (y, r\<lparr>buf := z # w # b'\<rparr>)"
      using binary_Read_uint8_buf [of "r\<lparr>buf := y # z # w # b'\<rparr>" y "z # w # b'"] by simp
    have c: "binary_Read_uint8 (r\<lparr>buf := z # w # b'\<rparr>) = Inr (z, r\<lparr>buf := w # b'\<rparr>)"
      using binary_Read_uint8_buf [of "r\<lparr>buf := z # w # b'\<rparr>" z "w # b'"] by simp
    have d: "binary_Read_uint8 (r\<lparr>buf := w # b'\<rparr>) = Inr (w, r\<lparr>buf := b'\<rparr>)"
      using binary_Read_uint8_buf [of "r\<lparr>buf := w # b'\<rparr>" w b'] by simp
    have "readColors cid i pal r = readColors cid (i + 1) (pal[i := ?c]) (r\<lparr>buf := b'\<rparr>)"
      using True a b c d by (subst readColors.simps) simp
    also have "\<dots> = Inr (take (i + 1) (pal[i := ?c]) @ map Some (spec_colors (take ?k b')),
        r\<lparr>buf := drop ?k b'\<rparr>)"
      using "1.IH" [OF True a refl b refl c refl d refl] i "1.prems" len by simp
    also have "take (i + 1) (pal[i := ?c]) = take i pal @ [?c]"
      using i "1.prems" by (simp add: take_Suc_conv_app_nth)
    finally show ?thesis unfolding k r by simp
  next
    case False
    with "1.prems" have "i = 256" by (simp add: paletteSize_def)
    with False "1.prems" show ?thesis by (subst readColors.simps) simp
  qed
qed

lemma uint32_Suc:
  fixes i n :: uint32
  assumes "i < n"
  shows "unat (i + 1) = Suc (unat i)"
proof -
  from assms have lt: "unat i < unat n" by (simp add: word_less_nat_alt)
  have "unat n < 2 ^ 32" using unsigned_less [of n] by simp
  with lt have "unat i + unat (1::uint32) < 2 ^ LENGTH(32)" by simp
  then show ?thesis by (simp add: unat_add_lem [THEN iffD1])
qed

lemma readVoxels_buffered:
  "i \<le> n \<Longrightarrow> length vs = unat n \<Longrightarrow> 4 * (unat n - unat i) \<le> length (buf r) \<Longrightarrow>
     readVoxels cid n i vs r
       = Inr (take (unat i) vs @ map Some (spec_voxels (take (4 * (unat n - unat i)) (buf r))),
              r\<lparr>buf := drop (4 * (unat n - unat i)) (buf r)\<rparr>)"
proof (induction cid n i vs r rule: readVoxels.induct)
  case (1 cid n i vs r)
  show ?case
  proof (cases "i < n")
    case True
    then have lt: "unat i < unat n" by (simp add: word_less_nat_alt)
    from True have s: "unat (i + 1) = Suc (unat i)" by (rule uint32_Suc)
    from True have le: "i + 1 \<le> n" by (rule inc_le)
    from lt "1.prems" have "4 \<le> length (buf r)" by simp
    then obtain x y z w b' where r: "buf r = x # y # z # w # b'" by (rule length_ge4_Cons)
    let ?c = "Some \<lparr>X = x, Y = y, Z = z, Index = w\<rparr>"
    let ?k = "4 * (unat n - unat (i + 1))"
    from lt s have k: "4 * (unat n - unat i) = Suc (Suc (Suc (Suc ?k)))" by simp
    from r "1.prems" lt s have len: "?k \<le> length b'" by simp
    have a: "binary_Read_uint8 r = Inr (x, r\<lparr>buf := y # z # w # b'\<rparr>)"
      using r by (rule binary_Read_uint8_buf)
    have b: "binary_Read_uint8 (r\<lparr>buf := y # z # w # b'\<rparr>) = Inr (y, r\<lparr>buf := z # w # b'\<rparr>)"
      using binary_Read_uint8_buf [of "r\<lparr>buf := y # z # w # b'\<rparr>" y "z # w # b'"] by simp
    have c: "binary_Read_uint8 (r\<lparr>buf := z # w # b'\<rparr>) = Inr (z, r\<lparr>buf := w # b'\<rparr>)"
      using binary_Read_uint8_buf [of "r\<lparr>buf := z # w # b'\<rparr>" z "w # b'"] by simp
    have d: "binary_Read_uint8 (r\<lparr>buf := w # b'\<rparr>) = Inr (w, r\<lparr>buf := b'\<rparr>)"
      using binary_Read_uint8_buf [of "r\<lparr>buf := w # b'\<rparr>" w b'] by simp
    have "readVoxels cid n i vs r = readVoxels cid n (i + 1) (vs[unat i := ?c]) (r\<lparr>buf := b'\<rparr>)"
      using True a b c d by (subst readVoxels.simps) simp
    also have "\<dots> = Inr (take (unat (i + 1)) (vs[unat i := ?c]) @ map Some (spec_voxels (take ?k b')),
        r\<lparr>buf := drop ?k b'\<rparr>)"
      using "1.IH" [OF True a refl b refl c refl d refl le] "1.prems" len by simp
    also have "take (unat (i + 1)) (vs[unat i := ?c]) = take (unat i) vs @ [?c]"
      using lt s "1.prems" by (simp add: take_Suc_conv_app_nth)
    finally show ?thesis unfolding k r by simp
  next
    case False
    with "1.prems" have "i = n" by simp
    with False "1.prems" show ?thesis by (subst readVoxels.simps) simp
  qed
qed

text \<open>However the input is delivered: what a successful voxel loop has read and stored.\<close>

lemma readVoxels_content:
  "readVoxels cid n i vs r = Inr (vs', r') \<Longrightarrow> i \<le> n \<Longrightarrow> length vs = unat n \<Longrightarrow>
     4 * (unat n - unat i) \<le> length (remaining r)
     \<and> vs' = take (unat i) vs @ map Some (spec_voxels (take (4 * (unat n - unat i)) (remaining r)))
     \<and> remaining r' = drop (4 * (unat n - unat i)) (remaining r)"
proof (induction cid n i vs r rule: readVoxels.induct)
  case (1 cid n i vs r)
  show ?case
  proof (cases "i < n")
    case True
    then have lt: "unat i < unat n" by (simp add: word_less_nat_alt)
    from True have s: "unat (i + 1) = Suc (unat i)" by (rule uint32_Suc)
    from True have le: "i + 1 \<le> n" by (rule inc_le)
    note eq = readVoxels.simps [of cid n i vs r]
    obtain x r1 where a: "binary_Read_uint8 r = Inr (x, r1)"
      using "1.prems"(1) eq True by (cases "binary_Read_uint8 r") auto
    obtain y r2 where b: "binary_Read_uint8 r1 = Inr (y, r2)"
      using "1.prems"(1) eq True a by (cases "binary_Read_uint8 r1") auto
    obtain z r3 where c: "binary_Read_uint8 r2 = Inr (z, r3)"
      using "1.prems"(1) eq True a b by (cases "binary_Read_uint8 r2") auto
    obtain w r4 where d: "binary_Read_uint8 r3 = Inr (w, r4)"
      using "1.prems"(1) eq True a b c by (cases "binary_Read_uint8 r3") auto
    let ?c = "Some \<lparr>X = x, Y = y, Z = z, Index = w\<rparr>"
    let ?k = "4 * (unat n - unat (i + 1))"
    have e: "readVoxels cid n (i + 1) (vs[unat i := ?c]) r4 = Inr (vs', r')"
      using "1.prems"(1) eq True a b c d by simp
    from lt s have k: "4 * (unat n - unat i) = Suc (Suc (Suc (Suc ?k)))" by simp
    have rem: "remaining r = x # y # z # w # remaining r4"
      using binary_Read_uint8_content [OF a] binary_Read_uint8_content [OF b]
        binary_Read_uint8_content [OF c] binary_Read_uint8_content [OF d] by simp
    from "1.IH" [OF True a refl b refl c refl d refl e le] "1.prems"(3)
    have ih: "?k \<le> length (remaining r4)"
      "vs' = take (unat (i + 1)) (vs[unat i := ?c]) @ map Some (spec_voxels (take ?k (remaining r4)))"
      "remaining r' = drop ?k (remaining r4)" by simp_all
    have t: "take (unat (i + 1)) (vs[unat i := ?c]) = take (unat i) vs @ [?c]"
      using lt s "1.prems"(3) by (simp add: take_Suc_conv_app_nth)
    from ih t show ?thesis unfolding k rem by simp
  next
    case False
    with "1.prems" have "i = n" by simp
    with False "1.prems" show ?thesis by (simp add: readVoxels.simps [of cid n n vs r])
  qed
qed

lemma readVoxels_complete:
  "i \<le> n \<Longrightarrow> 4 * (unat n - unat i) \<le> length (remaining r) \<Longrightarrow>
     \<exists>vs' r'. readVoxels cid n i vs r = Inr (vs', r')"
proof (induction cid n i vs r rule: readVoxels.induct)
  case (1 cid n i vs r)
  show ?case
  proof (cases "i < n")
    case True
    then have lt: "unat i < unat n" by (simp add: word_less_nat_alt)
    from True have s: "unat (i + 1) = Suc (unat i)" by (rule uint32_Suc)
    from True have le: "i + 1 \<le> n" by (rule inc_le)
    let ?k = "4 * (unat n - unat (i + 1))"
    from lt s have k: "4 * (unat n - unat i) = Suc (Suc (Suc (Suc ?k)))" by simp
    with "1.prems" have l0: "Suc (Suc (Suc (Suc ?k))) \<le> length (remaining r)" by simp
    then have "remaining r \<noteq> []" by auto
    from binary_Read_uint8_complete [OF this] obtain x r1
      where a: "binary_Read_uint8 r = Inr (x, r1)" by blast
    from binary_Read_uint8_content [OF a] l0 have l1: "Suc (Suc (Suc ?k)) \<le> length (remaining r1)"
      by simp
    then have "remaining r1 \<noteq> []" by auto
    from binary_Read_uint8_complete [OF this] obtain y r2
      where b: "binary_Read_uint8 r1 = Inr (y, r2)" by blast
    from binary_Read_uint8_content [OF b] l1 have l2: "Suc (Suc ?k) \<le> length (remaining r2)"
      by simp
    then have "remaining r2 \<noteq> []" by auto
    from binary_Read_uint8_complete [OF this] obtain z r3
      where c: "binary_Read_uint8 r2 = Inr (z, r3)" by blast
    from binary_Read_uint8_content [OF c] l2 have l3: "Suc ?k \<le> length (remaining r3)"
      by simp
    then have "remaining r3 \<noteq> []" by auto
    from binary_Read_uint8_complete [OF this] obtain w r4
      where d: "binary_Read_uint8 r3 = Inr (w, r4)" by blast
    from binary_Read_uint8_content [OF d] l3 have l4: "?k \<le> length (remaining r4)"
      by simp
    from "1.IH" [OF True a refl b refl c refl d refl le l4]
    obtain vs' r' where "readVoxels cid n (i + 1)
        (vs[unat i := Some \<lparr>X = x, Y = y, Z = z, Index = w\<rparr>]) r4 = Inr (vs', r')" by blast
    with True a b c d show ?thesis by (simp add: readVoxels.simps [of cid n i vs r])
  next
    case False
    then show ?thesis by (simp add: readVoxels.simps [of cid n i vs r])
  qed
qed

lemma length_defaultColors: "length defaultColors = 256"
  by (simp add: defaultColors_def)

lemma instancePalette_defaultColors: "instancePalette defaultPalette = map Some defaultColors"
  unfolding instancePalette_defaultPalette
  by (simp add: defaultPalette_def defaultColors_def rgba_def unpackColor_def)

lemma length_instancePalette_default: "length (instancePalette defaultPalette) = 256"
  by (simp add: instancePalette_defaultPalette length_defaultPalette)

lemma instancePalette_nth:
  assumes "i < 256"
  shows "instancePalette defaultPalette ! i
     = Some \<lparr>R = ucast (defaultPalette ! i), G = ucast (drop_bit 8 (defaultPalette ! i)),
              B = ucast (drop_bit 16 (defaultPalette ! i)), A = ucast (drop_bit 24 (defaultPalette ! i))\<rparr>"
proof -
  have "unpackColor v = \<lparr>R = ucast v, G = ucast (drop_bit 8 v), B = ucast (drop_bit 16 v),
      A = ucast (drop_bit 24 v)\<rparr>" for v
    using unpackColor_R [of v] unpackColor_G [of v] unpackColor_B [of v] unpackColor_A [of v]
    by (cases "unpackColor v") simp
  with assms show ?thesis
    by (simp add: instancePalette_defaultPalette length_defaultPalette)
qed

lemma readRGBA_buffered:
  "length bs = 1024 \<Longrightarrow>
     readRGBA cid \<lparr>buf = bs @ b, src = s\<rparr> vf
       = Inr (\<lparr>buf = b, src = s\<rparr>, vf\<lparr>Palette := map Some (spec_colors bs)\<rparr>)"
  using readColors_buffered [of 0 "replicate 256 None" "\<lparr>buf = bs @ b, src = s\<rparr>" cid]
  by (simp add: readRGBA_def)

lemma readXYZI_buffered:
  "length bs = 4 * unat (Uint32 [c0, c1, c2, c3]) \<Longrightarrow>
     readXYZI cid \<lparr>buf = c0 # c1 # c2 # c3 # bs @ b, src = s\<rparr> vf
       = Inr (\<lparr>buf = b, src = s\<rparr>, vf\<lparr>Voxels := map Some (spec_voxels bs)\<rparr>)"
  using readVoxels_buffered [of 0 "Uint32 [c0, c1, c2, c3]"
      "replicate (unat (Uint32 [c0, c1, c2, c3])) None" "\<lparr>buf = bs @ b, src = s\<rparr>" cid]
  by (simp add: readXYZI_def binary_Read_uint32_buffered)

lemma readPayload_XYZI_buffered:
  assumes "0 < n" "length cb = 4" "length bs = 4 * unat (Uint32 cb)"
  shows "readPayload (ascii ''XYZI'') n \<lparr>buf = cb @ bs @ b, src = s\<rparr> vf
       = Inr (\<lparr>buf = b, src = s\<rparr>, vf\<lparr>Voxels := map Some (spec_voxels bs)\<rparr>)"
proof -
  from assms(2) obtain c0 c1 c2 c3 where c: "cb = [c0, c1, c2, c3]" by (rule length4_Cons)
  from assms(3) c have "readXYZI (ascii ''XYZI'') \<lparr>buf = c0 # c1 # c2 # c3 # bs @ b, src = s\<rparr> vf
       = Inr (\<lparr>buf = b, src = s\<rparr>, vf\<lparr>Voxels := map Some (spec_voxels bs)\<rparr>)"
    by (intro readXYZI_buffered) simp
  with assms(1) c show ?thesis by (simp add: readPayload_def ascii_distinct)
qed

lemma readPayload_RGBA_buffered:
  assumes "0 < n" "length bs = 1024"
  shows "readPayload (ascii ''RGBA'') n \<lparr>buf = bs @ b, src = s\<rparr> vf
       = Inr (\<lparr>buf = b, src = s\<rparr>, vf\<lparr>Palette := map Some (spec_colors bs)\<rparr>)"
  using assms by (simp add: readPayload_def ascii_distinct readRGBA_buffered)

text \<open>
  The voxel-array handler on any reader: when it succeeds, the count N and 4 N more bytes were
  there, the record holds exactly the N voxels of these bytes, and these bytes are consumed;
  and it succeeds whenever that many bytes are to come, however they are delivered.
\<close>

lemma readXYZI_content:
  assumes "readXYZI cid r vf = Inr (r', vf')"
  shows "4 + 4 * unat (Uint32 (take 4 (remaining r))) \<le> length (remaining r)
     \<and> vf' = vf\<lparr>Voxels := map Some (spec_voxels
                  (take (4 * unat (Uint32 (take 4 (remaining r)))) (drop 4 (remaining r))))\<rparr>
     \<and> remaining r' = drop (4 + 4 * unat (Uint32 (take 4 (remaining r)))) (remaining r)"
proof -
  obtain n r1 where a: "binary_Read_uint32 r = Inr (n, r1)"
    using assms by (cases "binary_Read_uint32 r") (auto simp: readXYZI_def)
  obtain vs r2 where b: "readVoxels cid n 0 (replicate (unat n) None) r1 = Inr (vs, r2)"
    using assms a by (cases "readVoxels cid n 0 (replicate (unat n) None) r1") (auto simp: readXYZI_def)
  from assms a b have res: "r' = r2" "vf' = vf\<lparr>Voxels := vs\<rparr>" by (simp_all add: readXYZI_def)
  from binary_Read_uint32_content [OF a]
  have c: "4 \<le> length (remaining r)" "n = Uint32 (take 4 (remaining r))"
    "remaining r1 = drop 4 (remaining r)" by simp_all
  from readVoxels_content [OF b] have d: "4 * unat n \<le> length (remaining r1)"
    "vs = map Some (spec_voxels (take (4 * unat n) (remaining r1)))"
    "remaining r2 = drop (4 * unat n) (remaining r1)" by simp_all
  from c d res show ?thesis by (simp add: add.commute)
qed

lemma readXYZI_complete:
  assumes "4 + 4 * unat (Uint32 (take 4 (remaining r))) \<le> length (remaining r)"
  shows "\<exists>r' vf'. readXYZI cid r vf = Inr (r', vf')"
proof -
  from assms have "4 \<le> length (remaining r)" by simp
  from binary_Read_uint32_complete [OF this] obtain r1
    where a: "binary_Read_uint32 r = Inr (Uint32 (take 4 (remaining r)), r1)" by blast
  let ?n = "Uint32 (take 4 (remaining r))"
  from binary_Read_uint32_content [OF a] assms have "4 * (unat ?n - unat (0::uint32)) \<le> length (remaining r1)"
    by simp
  from readVoxels_complete [OF _ this, of cid "replicate (unat ?n) None"]
  obtain vs r2 where "readVoxels cid ?n 0 (replicate (unat ?n) None) r1 = Inr (vs, r2)" by auto
  with a show ?thesis by (simp add: readXYZI_def)
qed

subsection \<open>Evaluating chunks and Decode\<close>

lemma readSIZE_12:
  "readSIZE cid 12 \<lparr>buf = x0 # x1 # x2 # x3 # y0 # y1 # y2 # y3 # z0 # z1 # z2 # z3 # b, src = s\<rparr> vf
     = Inr (\<lparr>buf = b, src = s\<rparr>,
            vf\<lparr>SizeX := Uint32 [x0, x1, x2, x3], SizeY := Uint32 [y0, y1, y2, y3],
               SizeZ := Uint32 [z0, z1, z2, z3]\<rparr>)"
  by (simp add: readSIZE_def binary_Read_uint32_buffered)

lemma readPayload_SIZE_bad:
  "n \<noteq> 0 \<Longrightarrow> n \<noteq> 12 \<Longrightarrow>
     readPayload (ascii ''SIZE'') n r vf = Inl (ErrSizeNot12 (ascii ''SIZE'') n)"
  by (simp add: readPayload_def readSIZE_def word_greater_zero_iff)

lemma skipContents_done: "\<not> t < unat n \<Longrightarrow> skipContents cid n t arr r = Inr r"
  by (subst skipContents.simps) simp

lemma skipContents_step4:
  "t < unat n \<Longrightarrow>
     skipContents cid n t arr \<lparr>buf = a # b # c # d # bs, src = s\<rparr>
       = skipContents cid n (Suc (Suc (Suc (Suc t)))) (copyInto [a, b, c, d] arr) \<lparr>buf = bs, src = s\<rparr>"
  by (subst skipContents.simps) (simp add: Reader_Read4_buffered)

lemma readChunk_RGBA:
  assumes "length bs = 1024"
  shows "readChunk \<lparr>buf = ascii ''RGBA'' @ [0, 4, 0, 0] @ [0, 0, 0, 0] @ bs @ b, src = s\<rparr> vf
     = (Inr (1036, \<lparr>buf = b, src = s\<rparr>), vf\<lparr>Palette := map Some (spec_colors bs)\<rparr>)"
proof -
  have u: "Uint32 [0, 4, 0, 0] = 1024" by (simp add: Uint32_def)
  have p: "readPayload (ascii ''RGBA'') 1024 \<lparr>buf = bs @ b, src = s\<rparr> vf
      = Inr (\<lparr>buf = b, src = s\<rparr>, vf\<lparr>Palette := map Some (spec_colors bs)\<rparr>)"
    by (rule readPayload_RGBA_buffered) (simp_all add: assms)
  have "readChunk \<lparr>buf = ascii ''RGBA'' @ [0, 4, 0, 0] @ [0, 0, 0, 0] @ (bs @ b), src = s\<rparr> vf
      = (case readPayload (ascii ''RGBA'') (Uint32 [0, 4, 0, 0]) \<lparr>buf = bs @ b, src = s\<rparr> vf of
          Inl e \<Rightarrow> (Inl e, vf)
        | Inr (r4, vf1) \<Rightarrow>
            (case readChildren (Uint32 [0, 0, 0, 0]) r4 vf1 of
               (Inl e, vf2) \<Rightarrow> (Inl e, vf2)
             | (Inr r5, vf2) \<Rightarrow> (Inr (Uint32 [0, 4, 0, 0] + 12, r5), vf2)))"
    by (rule readChunk_header) (simp_all add: length_ascii4)
  then show ?thesis by (simp add: u p Uint32_zero readChildren_0)
qed

text \<open>
  \<open>readChunk\<close> once its three header reads have returned, however the stream delivered the
  bytes.
\<close>

lemma readChunk_reads:
  assumes "Reader_Read 4 r = Inr (bs, r1)" "binary_Read_uint32 r1 = Inr (chunkSize, r2)"
    "binary_Read_uint32 r2 = Inr (childrenSize, r3)"
  shows "readChunk r vf =
     (case readPayload (copyInto bs [0, 0, 0, 0]) chunkSize r3 vf of
        Inl e \<Rightarrow> (Inl e, vf)
      | Inr (r4, vf1) \<Rightarrow>
          (case readChildren childrenSize r4 vf1 of
             (Inl e, vf2) \<Rightarrow> (Inl e, vf2)
           | (Inr r5, vf2) \<Rightarrow> (Inr (chunkSize + 12, r5), vf2)))"
  by (subst readChunk.simps) (simp add: assms)

lemma copyInto_full: "length bs = length arr \<Longrightarrow> copyInto bs arr = bs"
  by (simp add: copyInto_def)

text \<open>
  When \<open>Decode\<close> gets past the header, the first eight bytes of the stream were the signature
  and the version 150, and the chunks are read from the ninth byte on.
\<close>

lemma Decode_header_sound:
  assumes "Decode_header r = Inr (v, r2)"
  shows "take 8 (remaining r) = voxHeader \<and> v = 150 \<and> remaining r2 = drop 8 (remaining r)"
proof -
  obtain bs r1 where a: "Reader_Read 4 r = Inr (bs, r1)"
    using assms by (cases "Reader_Read 4 r") (auto simp: Decode_header_def)
  from assms a have l: "length bs = 4"
    by (auto simp: Decode_header_def split: if_splits)
  then have c: "copyInto bs [0, 0, 0, 0] = bs" by (simp add: copyInto_full)
  from l obtain b0 b1 b2 b3 where bs: "bs = [b0, b1, b2, b3]" by (rule length4_Cons)
  from assms a c bs have m: "bs = ascii ''VOX ''"
    by (auto simp: Decode_header_def ascii_def split: if_splits)
  from assms a c m have b: "binary_Read_uint32 r1 = Inr (v, r2)" and v: "v = CurrentVersion"
    by (auto simp: Decode_header_def ascii_def split: if_splits sum.splits)
  from Reader_Read_content [OF a] have r: "remaining r = bs @ remaining r1" by simp
  from binary_Read_uint32_content [OF b]
  have k: "4 \<le> length (remaining r1)" "v = Uint32 (take 4 (remaining r1))"
    "remaining r2 = drop 4 (remaining r1)" by simp_all
  from k(1) obtain a0 a1 a2 a3 rest where r1: "remaining r1 = a0 # a1 # a2 # a3 # rest"
    by (rule length_ge4_Cons)
  from k(2) v r1 have "Uint32 [a0, a1, a2, a3] = 150" by (simp add: CurrentVersion_def)
  then have "a0 = 150 \<and> a1 = 0 \<and> a2 = 0 \<and> a3 = 0" by (simp add: Uint32_150_iff)
  with r r1 m k(3) v show ?thesis
    by (simp add: voxHeader_def CurrentVersion_def ascii_def)
qed

text \<open>A 32 bit value whose four bytes come in two reads of the underlying reader.\<close>

lemma binary_Read_uint32_pieces_2_2:
  "binary_Read_uint32 \<lparr>buf = [], src = [a, b] # (c # d # p) # s\<rparr>
     = Inr (Uint32 [a, b, c, d], \<lparr>buf = p, src = s\<rparr>)"
  unfolding binary_Read_uint32_def
  by (subst ReadFull.simps, simp add: Reader_Read_def,
      subst ReadFull.simps, simp add: Reader_Read_def,
      subst ReadFull.simps, simp)

lemma binary_Read_uint32_pieces_3_1:
  "binary_Read_uint32 \<lparr>buf = [a, b, c], src = (d # p) # s\<rparr>
     = Inr (Uint32 [a, b, c, d], \<lparr>buf = p, src = s\<rparr>)"
  unfolding binary_Read_uint32_def
  by (subst ReadFull.simps, simp add: Reader_Read_def,
      subst ReadFull.simps, simp add: Reader_Read_def,
      subst ReadFull.simps, simp)

text \<open>
  A palette chunk with 256 times the color (1, 2, 3, 4), a voxel chunk that ends after its
  count, and a MAIN chunk that holds the two.
\<close>

lemma readChunk_RGBA_1234:
  "readChunk \<lparr>buf = ascii ''RGBA'' @ [0, 4, 0, 0] @ [0, 0, 0, 0] @ concat (replicate 256 [1, 2, 3, 4]) @ b,
              src = s\<rparr> vf
     = (Inr (1036, \<lparr>buf = b, src = s\<rparr>),
        vf\<lparr>Palette := replicate 256 (Some \<lparr>R = 1, G = 2, B = 3, A = 4\<rparr>)\<rparr>)"
proof -
  have l: "length (concat (replicate 256 [1, 2, 3, 4 :: byte])) = 1024"
    by (simp add: length_concat_replicate4)
  show ?thesis
    unfolding readChunk_RGBA [OF l] by (simp add: spec_colors_replicate)
qed

lemma readChunk_XYZI_truncated:
  "readChunk \<lparr>buf = ascii ''XYZI'' @ [8, 0, 0, 0] @ [0, 0, 0, 0] @ [1, 0, 0, 0], src = []\<rparr> vf
     = (Inl (ErrVoxel (ascii ''XYZI'') 0 EOF), vf)"
proof -
  have v: "readVoxels [88, 89, 90, 73] 1 0 [None] \<lparr>buf = [], src = []\<rparr>
      = Inl (ErrVoxel [88, 89, 90, 73] 0 EOF)"
    by (subst readVoxels.simps) (simp add: binary_Read_uint8_end)
  show ?thesis
    by (simp add: ascii4 readChunk_buffered Uint32_small readPayload_def readXYZI_def
        binary_Read_uint32_buffered v)
qed

lemma readChunk_MAIN_RGBA_truncated:
  "readChunk \<lparr>buf = ascii ''MAIN'' @ [0, 0, 0, 0] @ [28, 4, 0, 0]
                 @ ascii ''RGBA'' @ [0, 4, 0, 0] @ [0, 0, 0, 0] @ concat (replicate 256 [1, 2, 3, 4])
                 @ ascii ''XYZI'' @ [8, 0, 0, 0] @ [0, 0, 0, 0] @ [1, 0, 0, 0],
              src = []\<rparr> vf
     = (Inl (ErrVoxel (ascii ''XYZI'') 0 EOF),
        vf\<lparr>Palette := replicate 256 (Some \<lparr>R = 1, G = 2, B = 3, A = 4\<rparr>)\<rparr>)"
proof -
  let ?xyzi = "ascii ''XYZI'' @ [8, 0, 0, 0] @ [0, 0, 0, 0] @ [1, 0, 0, 0]"
  let ?rest = "ascii ''RGBA'' @ [0, 4, 0, 0] @ [0, 0, 0, 0] @ concat (replicate 256 [1, 2, 3, 4]) @ ?xyzi"
  have u: "Uint32 [28, 4, 0, 0] = 1052" by (simp add: Uint32_def)
  have k: "readChildren 1052 \<lparr>buf = ?rest, src = []\<rparr> vf
      = (Inl (ErrVoxel (ascii ''XYZI'') 0 EOF),
         vf\<lparr>Palette := replicate 256 (Some \<lparr>R = 1, G = 2, B = 3, A = 4\<rparr>)\<rparr>)"
    by (subst readChildren_pos, simp, subst readChunk_RGBA_1234)
       (simp add: readChildren_pos readChunk_XYZI_truncated [simplified])
  have "readChunk \<lparr>buf = ascii ''MAIN'' @ [0, 0, 0, 0] @ [28, 4, 0, 0] @ ?rest, src = []\<rparr> vf
      = (case readPayload (ascii ''MAIN'') (Uint32 [0, 0, 0, 0]) \<lparr>buf = ?rest, src = []\<rparr> vf of
          Inl e \<Rightarrow> (Inl e, vf)
        | Inr (r4, vf1) \<Rightarrow>
            (case readChildren (Uint32 [28, 4, 0, 0]) r4 vf1 of
               (Inl e, vf2) \<Rightarrow> (Inl e, vf2)
             | (Inr r5, vf2) \<Rightarrow> (Inr (Uint32 [0, 0, 0, 0] + 12, r5), vf2)))"
    by (rule readChunk_header) (simp_all add: length_ascii4)
  then show ?thesis
    unfolding Uint32_zero readPayload_0 u by (simp add: k [simplified])
qed

section \<open>The claims\<close>

text \<open>
  C1 fails on the code. A file whose root chunk is an RGBA chunk with 256 times the color
  (1, 2, 3, 4), arriving in one read: \<open>readChunk\<close> succeeds and has stored the custom palette
  in the record, and Decode returns the default palette in its place (line 110 runs whether or
  not a custom palette was read).
\<close>

theorem Decode_overwrites_custom_palette:
  "readChunk \<lparr>buf = ascii ''RGBA'' @ [0, 4, 0, 0] @ [0, 0, 0, 0] @ concat (replicate 256 [1, 2, 3, 4]),
              src = []\<rparr>
       (new_VoxFile\<lparr>Version := 150\<rparr>)
     = (Inr (1036, \<lparr>buf = [], src = []\<rparr>),
        new_VoxFile\<lparr>Version := 150, Palette := replicate 256 (Some \<lparr>R = 1, G = 2, B = 3, A = 4\<rparr>)\<rparr>)
   \<and> Decode (delivered [voxHeader @ ascii ''RGBA'' @ [0, 4, 0, 0] @ [0, 0, 0, 0]
                          @ concat (replicate 256 [1, 2, 3, 4])])
     = (Some (new_VoxFile\<lparr>Version := 150, Palette := instancePalette defaultPalette\<rparr>), None)
   \<and> instancePalette defaultPalette \<noteq> replicate 256 (Some \<lparr>R = 1, G = 2, B = 3, A = 4\<rparr>)"
proof -
  let ?bs = "concat (replicate 256 [1, 2, 3, 4]) :: byte list"
  have l: "length ?bs = 1024" by (simp add: length_concat_replicate4)
  have c: "readChunk \<lparr>buf = ascii ''RGBA'' @ [0, 4, 0, 0] @ [0, 0, 0, 0] @ ?bs, src = []\<rparr>
       (new_VoxFile\<lparr>Version := 150\<rparr>)
     = (Inr (1036, \<lparr>buf = [], src = []\<rparr>),
        new_VoxFile\<lparr>Version := 150, Palette := replicate 256 (Some \<lparr>R = 1, G = 2, B = 3, A = 4\<rparr>)\<rparr>)"
    using readChunk_RGBA [OF l, of "[]" "[]" "new_VoxFile\<lparr>Version := 150\<rparr>"]
    by (simp add: spec_colors_replicate)
  have d: "Decode (delivered [voxHeader @ ascii ''RGBA'' @ [0, 4, 0, 0] @ [0, 0, 0, 0] @ ?bs])
     = (Some (new_VoxFile\<lparr>Version := 150, Palette := instancePalette defaultPalette\<rparr>), None)"
    unfolding Decode_delivered c by simp
  have "instancePalette defaultPalette ! 0 \<noteq> replicate 256 (Some \<lparr>R = 1, G = 2, B = 3, A = 4\<rparr>) ! 0"
    by (simp add: instancePalette_entries(1))
  then have n: "instancePalette defaultPalette \<noteq> replicate 256 (Some \<lparr>R = 1, G = 2, B = 3, A = 4\<rparr>)"
    by auto
  from c d n show ?thesis by blast
qed

text \<open>
  C2 fails on the code. A truncated file: MAIN with a SIZE child (20, 21, 20) and an XYZI child
  that declares one voxel and ends after the count. Decode returns the error of voxel 0
  together with the record, which holds the dimensions read before the failure.
\<close>

theorem Decode_returns_record_with_error:
  "Decode (delivered [voxHeader @ ascii ''MAIN'' @ [0, 0, 0, 0] @ [44, 0, 0, 0]
             @ ascii ''SIZE'' @ [12, 0, 0, 0] @ [0, 0, 0, 0] @ [20, 0, 0, 0, 21, 0, 0, 0, 20, 0, 0, 0]
             @ ascii ''XYZI'' @ [8, 0, 0, 0] @ [0, 0, 0, 0] @ [1, 0, 0, 0]])
     = (Some (new_VoxFile\<lparr>Version := 150, SizeX := 20, SizeY := 21, SizeZ := 20,
                            Palette := instancePalette defaultPalette\<rparr>),
        Some (ErrVoxel (ascii ''XYZI'') 0 EOF))"
proof -
  have v: "readVoxels [88, 89, 90, 73] 1 0 [None] \<lparr>buf = [], src = []\<rparr>
      = Inl (ErrVoxel [88, 89, 90, 73] 0 EOF)"
    by (subst readVoxels.simps) (simp add: binary_Read_uint8_end)
  show ?thesis
    unfolding Decode_delivered
    by (simp add: ascii4 readChunk_buffered Uint32_small Uint32_zero readPayload_def readSIZE_12
        readChildren_0 readChildren_pos readXYZI_def binary_Read_uint32_buffered v)
qed

text \<open>
  C3 fails on the code. A well-formed tree of three levels, MAIN holding PACK holding NOTE, all
  without payload. The accounting of the specification gives PACK the size 24 (its header and
  NOTE); \<open>readChunk\<close> returns 12 for it (line 254 returns the payload size plus 12 and leaves
  the children out). So the children loop of MAIN, with a budget of 24 bytes that PACK fills
  exactly, is left with 12, reads on at the end of the input, and Decode fails.
\<close>

theorem nested_children_not_counted:
  "encode (Chunk (ascii ''MAIN'') [] [Chunk (ascii ''PACK'') [] [Chunk (ascii ''NOTE'') [] []]])
     = ascii ''MAIN'' @ [0, 0, 0, 0] @ [24, 0, 0, 0]
       @ ascii ''PACK'' @ [0, 0, 0, 0] @ [12, 0, 0, 0]
       @ ascii ''NOTE'' @ [0, 0, 0, 0] @ [0, 0, 0, 0]
   \<and> spec_consumed (Chunk (ascii ''PACK'') [] [Chunk (ascii ''NOTE'') [] []]) = 24
   \<and> readChunk \<lparr>buf = encode (Chunk (ascii ''PACK'') [] [Chunk (ascii ''NOTE'') [] []]), src = []\<rparr>
        new_VoxFile
       = (Inr (12, \<lparr>buf = [], src = []\<rparr>), new_VoxFile)
   \<and> readChildren 24
        \<lparr>buf = encode (Chunk (ascii ''PACK'') [] [Chunk (ascii ''NOTE'') [] []]), src = []\<rparr> new_VoxFile
       = (Inl (ErrChunkID EOF), new_VoxFile)
   \<and> Decode (delivered [voxHeader
        @ encode (Chunk (ascii ''MAIN'') [] [Chunk (ascii ''PACK'') [] [Chunk (ascii ''NOTE'') [] []]])])
       = (Some (new_VoxFile\<lparr>Version := 150, Palette := instancePalette defaultPalette\<rparr>),
          Some (ErrChunkID EOF))"
proof -
  let ?pack = "Chunk (ascii ''PACK'') [] [Chunk (ascii ''NOTE'') [] []]"
  have e: "encode (Chunk (ascii ''MAIN'') [] [?pack])
     = ascii ''MAIN'' @ [0, 0, 0, 0] @ [24, 0, 0, 0]
       @ ascii ''PACK'' @ [0, 0, 0, 0] @ [12, 0, 0, 0]
       @ ascii ''NOTE'' @ [0, 0, 0, 0] @ [0, 0, 0, 0]"
    by (simp add: PutUint32_def ascii_def)
  have s: "spec_consumed ?pack = 24"
    by simp
  have p: "readChunk \<lparr>buf = encode ?pack, src = []\<rparr> vf = (Inr (12, \<lparr>buf = [], src = []\<rparr>), vf)" for vf
    by (simp add: PutUint32_def ascii_def readChunk_buffered Uint32_small Uint32_zero readPayload_0
        readChildren_0 readChildren_pos)
  have k: "readChildren 24 \<lparr>buf = encode ?pack, src = []\<rparr> vf = (Inl (ErrChunkID EOF), vf)" for vf
    by (subst readChildren_pos, simp, subst p) (simp add: readChildren_pos readChunk_end)
  have m: "readChunk \<lparr>buf = encode (Chunk (ascii ''MAIN'') [] [?pack]), src = []\<rparr> vf
       = (Inl (ErrChunkID EOF), vf)" for vf
    by (simp add: PutUint32_def ascii_def readChunk_buffered Uint32_small Uint32_zero readPayload_0
        readChildren_0 readChildren_pos readChunk_end)
  have d: "Decode (delivered [voxHeader @ encode (Chunk (ascii ''MAIN'') [] [?pack])])
       = (Some (new_VoxFile\<lparr>Version := 150, Palette := instancePalette defaultPalette\<rparr>),
          Some (ErrChunkID EOF))"
    unfolding Decode_delivered m by simp
  from e s p [of new_VoxFile] k [of new_VoxFile] d show ?thesis by blast
qed

text \<open>
  C4 fails on the code. A file with an empty MAIN chunk and no palette chunk decodes
  successfully and gets the materialized default palette. Its entries 0 and 1 are (0, 0, 0, 0)
  and (255, 255, 255, 255). Entry 2, unpacked from 0xffccffff by lines 265-268, is R = 255,
  G = 255, B = 204, A = 255; the test of the loader in the repository asserts R = 0xff,
  G = 0xcc, B = 0xff, A = 0xff for \<^verbatim>\<open>Palette[2]\<close>, that is (255, 204, 255, 255).
\<close>

theorem default_palette_third_entry:
  "Decode (delivered [voxHeader @ ascii ''MAIN'' @ [0, 0, 0, 0, 0, 0, 0, 0]])
     = (Some (new_VoxFile\<lparr>Version := 150, Palette := instancePalette defaultPalette\<rparr>), None)
   \<and> defaultPalette ! 2 = 0xffccffff
   \<and> instancePalette defaultPalette ! 0 = Some \<lparr>R = 0, G = 0, B = 0, A = 0\<rparr>
   \<and> instancePalette defaultPalette ! 1 = Some \<lparr>R = 255, G = 255, B = 255, A = 255\<rparr>
   \<and> instancePalette defaultPalette ! 2 = Some \<lparr>R = 255, G = 255, B = 204, A = 255\<rparr>
   \<and> instancePalette defaultPalette ! 2 \<noteq> Some \<lparr>R = 255, G = 204, B = 255, A = 255\<rparr>"
proof -
  have e: "defaultPalette ! 2 = 0xffccffff"
    using take3_defaultPalette nth_take [of 2 3 defaultPalette] by simp
  note p = instancePalette_entries
  have n: "instancePalette defaultPalette ! 2 \<noteq> Some \<lparr>R = 255, G = 204, B = 255, A = 255\<rparr>"
    unfolding p(3) by simp
  from Decode_empty_MAIN e p n show ?thesis by blast
qed

text \<open>
  C5, amended. A dimensions chunk whose declared payload size is neither 0 nor 12 fails with
  the error of line 145, which carries the size found: on any stream, once the three reads of
  the chunk header have returned the identifier SIZE and the two sizes; and, with the twelve
  header bytes in the buffer, as a chunk of its own, as the next child of a children loop, and
  as the root chunk of Decode. (With size 0 no handler runs, see C9.)
\<close>

theorem SIZE_wrong_size_fails:
  "(Reader_Read 4 r = Inr (ascii ''SIZE'', r1) \<and> binary_Read_uint32 r1 = Inr (chunkSize, r2)
      \<and> binary_Read_uint32 r2 = Inr (childrenSize, r3) \<and> chunkSize \<noteq> 0 \<and> chunkSize \<noteq> 12 \<longrightarrow>
    readChunk r vf = (Inl (ErrSizeNot12 (ascii ''SIZE'') chunkSize), vf))
   \<and> (length ss = 4 \<and> length cs = 4 \<and> Uint32 ss \<noteq> 0 \<and> Uint32 ss \<noteq> 12 \<longrightarrow>
     readChunk \<lparr>buf = ascii ''SIZE'' @ ss @ cs @ b, src = s\<rparr> vf
       = (Inl (ErrSizeNot12 (ascii ''SIZE'') (Uint32 ss)), vf)
     \<and> (0 < n \<longrightarrow> readChildren n \<lparr>buf = ascii ''SIZE'' @ ss @ cs @ b, src = s\<rparr> vf
                     = (Inl (ErrSizeNot12 (ascii ''SIZE'') (Uint32 ss)), vf))
     \<and> snd (Decode (delivered ((voxHeader @ ascii ''SIZE'' @ ss @ cs @ b) # s)))
         = Some (ErrSizeNot12 (ascii ''SIZE'') (Uint32 ss)))"
proof (intro conjI impI; (elim conjE)?)
  assume a: "Reader_Read 4 r = Inr (ascii ''SIZE'', r1)" "binary_Read_uint32 r1 = Inr (chunkSize, r2)"
    "binary_Read_uint32 r2 = Inr (childrenSize, r3)" and n: "chunkSize \<noteq> 0" "chunkSize \<noteq> 12"
  have i: "copyInto (ascii ''SIZE'') [0, 0, 0, 0] = ascii ''SIZE''"
    by (simp add: copyInto_full length_ascii4)
  from readChunk_reads [OF a, of vf]
  show "readChunk r vf = (Inl (ErrSizeNot12 (ascii ''SIZE'') chunkSize), vf)"
    unfolding i by (simp add: readPayload_SIZE_bad [OF n])
next
  assume a: "length ss = 4" "length cs = 4" "Uint32 ss \<noteq> 0" "Uint32 ss \<noteq> 12"
  have c: "readChunk \<lparr>buf = ascii ''SIZE'' @ ss @ cs @ b, src = s\<rparr> vf
       = (Inl (ErrSizeNot12 (ascii ''SIZE'') (Uint32 ss)), vf)" for vf
    using readChunk_header [OF length_ascii4 a(1,2), of "CHR ''S''" "CHR ''I''" "CHR ''Z''" "CHR ''E''" b s vf]
      readPayload_SIZE_bad [OF a(3,4), of "\<lparr>buf = b, src = s\<rparr>" vf]
    by simp
  show "readChunk \<lparr>buf = ascii ''SIZE'' @ ss @ cs @ b, src = s\<rparr> vf
       = (Inl (ErrSizeNot12 (ascii ''SIZE'') (Uint32 ss)), vf)"
    by (rule c)
  show "snd (Decode (delivered ((voxHeader @ ascii ''SIZE'' @ ss @ cs @ b) # s)))
         = Some (ErrSizeNot12 (ascii ''SIZE'') (Uint32 ss))"
    unfolding Decode_delivered c by simp
  assume "0 < n"
  then show "readChildren n \<lparr>buf = ascii ''SIZE'' @ ss @ cs @ b, src = s\<rparr> vf
                     = (Inl (ErrSizeNot12 (ascii ''SIZE'') (Uint32 ss)), vf)"
    by (simp add: readChildren_pos c)
qed

text \<open>
  The sizes 8 and 16, and a chunk with size 16 whose header comes out of four reads of the
  underlying reader.
\<close>

theorem SIZE_wrong_size_fails_witness:
  "Uint32 [8, 0, 0, 0] \<noteq> 0 \<and> Uint32 [8, 0, 0, 0] \<noteq> 12
   \<and> readChunk \<lparr>buf = ascii ''SIZE'' @ [8, 0, 0, 0] @ [0, 0, 0, 0] @ [1, 0, 0, 0, 2, 0, 0, 0], src = []\<rparr>
        new_VoxFile
       = (Inl (ErrSizeNot12 (ascii ''SIZE'') 8), new_VoxFile)
   \<and> Uint32 [16, 0, 0, 0] \<noteq> 0 \<and> Uint32 [16, 0, 0, 0] \<noteq> 12
   \<and> snd (Decode (delivered ((voxHeader @ ascii ''SIZE'' @ [16, 0, 0, 0] @ [0, 0, 0, 0] @ []) # [])))
       = Some (ErrSizeNot12 (ascii ''SIZE'') 16)
   \<and> Reader_Read 4 (delivered [ascii ''SIZE'', [16, 0], [0, 0, 0, 0, 0], [0, 1, 2, 3]])
       = Inr (ascii ''SIZE'', \<lparr>buf = [], src = [[16, 0], [0, 0, 0, 0, 0], [0, 1, 2, 3]]\<rparr>)
   \<and> binary_Read_uint32 \<lparr>buf = [], src = [[16, 0], [0, 0, 0, 0, 0], [0, 1, 2, 3]]\<rparr>
       = Inr (16, \<lparr>buf = [0, 0, 0], src = [[0, 1, 2, 3]]\<rparr>)
   \<and> binary_Read_uint32 \<lparr>buf = [0, 0, 0], src = [[0, 1, 2, 3]]\<rparr>
       = Inr (0, \<lparr>buf = [1, 2, 3], src = []\<rparr>)
   \<and> (16 :: uint32) \<noteq> 0 \<and> (16 :: uint32) \<noteq> 12
   \<and> readChunk (delivered [ascii ''SIZE'', [16, 0], [0, 0, 0, 0, 0], [0, 1, 2, 3]]) new_VoxFile
       = (Inl (ErrSizeNot12 (ascii ''SIZE'') 16), new_VoxFile)"
proof -
  have u: "Uint32 [8, 0, 0, 0] = 8" "Uint32 [16, 0, 0, 0] = 16" by (simp_all add: Uint32_small)
  have h8: "length [8, 0, 0, 0 :: byte] = 4 \<and> length [0, 0, 0, 0 :: byte] = 4
      \<and> Uint32 [8, 0, 0, 0] \<noteq> 0 \<and> Uint32 [8, 0, 0, 0] \<noteq> 12" by (simp add: u)
  have h16: "length [16, 0, 0, 0 :: byte] = 4 \<and> length [0, 0, 0, 0 :: byte] = 4
      \<and> Uint32 [16, 0, 0, 0] \<noteq> 0 \<and> Uint32 [16, 0, 0, 0] \<noteq> 12" by (simp add: u)
  from SIZE_wrong_size_fails [of _ _ _ _ _ _ new_VoxFile "[8, 0, 0, 0]" "[0, 0, 0, 0]"
      "[1, 0, 0, 0, 2, 0, 0, 0]" "[]" 1] h8
  have 1: "readChunk \<lparr>buf = ascii ''SIZE'' @ [8, 0, 0, 0] @ [0, 0, 0, 0] @ [1, 0, 0, 0, 2, 0, 0, 0], src = []\<rparr>
        new_VoxFile
       = (Inl (ErrSizeNot12 (ascii ''SIZE'') 8), new_VoxFile)"
    unfolding u by blast
  from SIZE_wrong_size_fails [of _ _ _ _ _ _ new_VoxFile "[16, 0, 0, 0]" "[0, 0, 0, 0]" "[]" "[]" 1] h16
  have 2: "snd (Decode (delivered ((voxHeader @ ascii ''SIZE'' @ [16, 0, 0, 0] @ [0, 0, 0, 0] @ []) # [])))
       = Some (ErrSizeNot12 (ascii ''SIZE'') 16)"
    unfolding u by blast
  let ?r = "delivered [ascii ''SIZE'', [16, 0], [0, 0, 0, 0, 0], [0, 1, 2, 3]]"
  let ?r1 = "\<lparr>buf = [], src = [[16, 0], [0, 0, 0, 0, 0], [0, 1, 2, 3 :: byte]]\<rparr>"
  let ?r2 = "\<lparr>buf = [0, 0, 0], src = [[0, 1, 2, 3 :: byte]]\<rparr>"
  let ?r3 = "\<lparr>buf = [1, 2, 3 :: byte], src = []\<rparr>"
  have a: "Reader_Read 4 ?r = Inr (ascii ''SIZE'', ?r1)"
    by (simp add: delivered_def Reader_Read_fill ascii_def)
  have b: "binary_Read_uint32 ?r1 = Inr (16, ?r2)"
    by (simp add: binary_Read_uint32_pieces_2_2 u)
  have c: "binary_Read_uint32 ?r2 = Inr (0, ?r3)"
    by (simp add: binary_Read_uint32_pieces_3_1 Uint32_zero)
  have d: "(16 :: uint32) \<noteq> 0 \<and> (16 :: uint32) \<noteq> 12" by simp
  from SIZE_wrong_size_fails [of ?r ?r1 16 ?r2 0 ?r3 new_VoxFile] a b c d
  have 3: "readChunk ?r new_VoxFile = (Inl (ErrSizeNot12 (ascii ''SIZE'') 16), new_VoxFile)"
    by blast
  from h8 h16 1 2 a b c d 3 show ?thesis by blast
qed

text \<open>
  A dimensions chunk with declared size 0, which is not 12: reading it succeeds, and so does
  Decode of the file that consists of it.
\<close>

theorem SIZE_zero_size_counterexample:
  "Uint32 [0, 0, 0, 0] \<noteq> 12
   \<and> readChunk \<lparr>buf = ascii ''SIZE'' @ [0, 0, 0, 0] @ [0, 0, 0, 0], src = []\<rparr>
        (new_VoxFile\<lparr>Version := 150\<rparr>)
       = (Inr (12, \<lparr>buf = [], src = []\<rparr>), new_VoxFile\<lparr>Version := 150\<rparr>)
   \<and> Decode (delivered [voxHeader @ ascii ''SIZE'' @ [0, 0, 0, 0] @ [0, 0, 0, 0]])
       = (Some (new_VoxFile\<lparr>Version := 150, Palette := instancePalette defaultPalette\<rparr>), None)"
proof -
  have c: "readChunk \<lparr>buf = ascii ''SIZE'' @ [0, 0, 0, 0] @ [0, 0, 0, 0], src = []\<rparr>
        (new_VoxFile\<lparr>Version := 150\<rparr>)
       = (Inr (12, \<lparr>buf = [], src = []\<rparr>), new_VoxFile\<lparr>Version := 150\<rparr>)"
    by (simp add: ascii4 readChunk_buffered Uint32_zero readPayload_0 readChildren_0)
  have d: "Decode (delivered [voxHeader @ ascii ''SIZE'' @ [0, 0, 0, 0] @ [0, 0, 0, 0]])
       = (Some (new_VoxFile\<lparr>Version := 150, Palette := instancePalette defaultPalette\<rparr>), None)"
    unfolding Decode_delivered c by simp
  from c d show ?thesis by (simp add: Uint32_zero)
qed

text \<open>
  C6 fails on the code. A stream whose first eight bytes are the signature "VOX " and the
  version 150, in front of an empty MAIN chunk, and which the underlying reader delivers as the
  two bytes "VO" and then the rest. The read of line 88 returns the 2 bytes of the first piece,
  line 92 finds \<^verbatim>\<open>c != 4\<close>, and Decode returns no record and the error of a bad magic
  string. The same bytes delivered in one piece pass the header and decode. The version on
  line 98 is read by \<^verbatim>\<open>binary.Read\<close>, which reads until it has its four bytes: a version
  that comes in two pieces is read in full.
\<close>

theorem short_first_read_rejects_valid_header:
  "remaining (delivered [ascii ''VO'', ascii ''X '' @ [150, 0, 0, 0] @ ascii ''MAIN'' @ [0, 0, 0, 0, 0, 0, 0, 0]])
     = voxHeader @ ascii ''MAIN'' @ [0, 0, 0, 0, 0, 0, 0, 0]
   \<and> Decode (delivered [ascii ''VO'', ascii ''X '' @ [150, 0, 0, 0] @ ascii ''MAIN'' @ [0, 0, 0, 0, 0, 0, 0, 0]])
     = (None, Some (ErrMagic [of_char CHR ''V'', of_char CHR ''O'', 0, 0]))
   \<and> Decode (delivered [voxHeader @ ascii ''MAIN'' @ [0, 0, 0, 0, 0, 0, 0, 0]])
     = (Some (new_VoxFile\<lparr>Version := 150, Palette := instancePalette defaultPalette\<rparr>), None)
   \<and> binary_Read_uint32 (delivered [[150, 0], [0, 0]]) = Inr (150, \<lparr>buf = [], src = []\<rparr>)"
proof -
  have r: "remaining (delivered [ascii ''VO'', ascii ''X '' @ [150, 0, 0, 0] @ ascii ''MAIN'' @ [0, 0, 0, 0, 0, 0, 0, 0]])
     = voxHeader @ ascii ''MAIN'' @ [0, 0, 0, 0, 0, 0, 0, 0]"
    by (simp add: remaining_def delivered_def voxHeader_bytes ascii_def)
  have h: "Decode_header (delivered [ascii ''VO'', ascii ''X '' @ [150, 0, 0, 0] @ ascii ''MAIN'' @ [0, 0, 0, 0, 0, 0, 0, 0]])
     = Inl (ErrMagic [of_char CHR ''V'', of_char CHR ''O'', 0, 0])"
    by (simp add: Decode_header_def delivered_def Reader_Read_fill ascii_def copyInto_def)
  have v: "binary_Read_uint32 (delivered [[150, 0], [0, 0]]) = Inr (150, \<lparr>buf = [], src = []\<rparr>)"
    unfolding binary_Read_uint32_def delivered_def
    by (subst ReadFull.simps, simp add: Reader_Read_fill,
        subst ReadFull.simps, simp add: Reader_Read_fill,
        subst ReadFull.simps, simp add: Uint32_def)
  from r Decode_header_Inl [OF h] Decode_empty_MAIN v show ?thesis by blast
qed

text \<open>
  C7, amended. The handler of a voxel-array chunk runs when the declared payload size is above
  0, on any stream. Whenever it succeeds, the first four bytes of the payload held the count N,
  low byte first, at least 4 N bytes followed, and the record holds exactly N voxels, the k-th
  made of the bytes 4k, 4k+1, 4k+2, 4k+3 after the count as X, Y, Z and palette index, in
  place of whatever voxel sequence it held before; the count and these 4 N bytes are consumed.
  It does succeed whenever the count and 4 N more bytes are to come. With the chunk in the
  buffer and no children, \<open>readChunk\<close> returns the declared size plus 12, and Decode of the
  file that consists of this chunk returns the N voxels and no error.
\<close>

theorem XYZI_voxels:
  "(0 < chunkSize \<and> readPayload (ascii ''XYZI'') chunkSize r vf = Inr (r', vf') \<longrightarrow>
      4 + 4 * unat (Uint32 (take 4 (remaining r))) \<le> length (remaining r)
      \<and> vf' = vf\<lparr>Voxels := map Some (spec_voxels
                  (take (4 * unat (Uint32 (take 4 (remaining r)))) (drop 4 (remaining r))))\<rparr>
      \<and> length (Voxels vf') = unat (Uint32 (take 4 (remaining r)))
      \<and> (\<forall>k < unat (Uint32 (take 4 (remaining r))).
           Voxels vf' ! k = Some \<lparr>X = remaining r ! (4 + 4 * k), Y = remaining r ! (4 + 4 * k + 1),
                                  Z = remaining r ! (4 + 4 * k + 2), Index = remaining r ! (4 + 4 * k + 3)\<rparr>)
      \<and> remaining r' = drop (4 + 4 * unat (Uint32 (take 4 (remaining r)))) (remaining r))
   \<and> (0 < chunkSize \<and> 4 + 4 * unat (Uint32 (take 4 (remaining r))) \<le> length (remaining r) \<longrightarrow>
        (\<exists>r2 vf2. readPayload (ascii ''XYZI'') chunkSize r vf = Inr (r2, vf2)))
   \<and> (length ss = 4 \<and> 0 < Uint32 ss \<and> length cnt = 4 \<and> length vbytes = 4 * unat (Uint32 cnt) \<longrightarrow>
        readChunk \<lparr>buf = ascii ''XYZI'' @ ss @ [0, 0, 0, 0] @ cnt @ vbytes @ b, src = s\<rparr> vf
          = (Inr (Uint32 ss + 12, \<lparr>buf = b, src = s\<rparr>), vf\<lparr>Voxels := map Some (spec_voxels vbytes)\<rparr>)
        \<and> Decode (delivered ((voxHeader @ ascii ''XYZI'' @ ss @ [0, 0, 0, 0] @ cnt @ vbytes @ b) # s))
          = (Some (new_VoxFile\<lparr>Version := 150, Voxels := map Some (spec_voxels vbytes),
                                 Palette := instancePalette defaultPalette\<rparr>), None))"
proof (intro conjI impI; (elim conjE)?)
  let ?N = "unat (Uint32 (take 4 (remaining r)))"
  {
    assume a: "0 < chunkSize" "readPayload (ascii ''XYZI'') chunkSize r vf = Inr (r', vf')"
    then have x: "readXYZI (ascii ''XYZI'') r vf = Inr (r', vf')"
      by (simp add: readPayload_def ascii_distinct)
    note c = readXYZI_content [OF x]
    from c show 1: "4 + 4 * ?N \<le> length (remaining r)" by blast
    from c show 2: "vf' = vf\<lparr>Voxels := map Some (spec_voxels (take (4 * ?N) (drop 4 (remaining r))))\<rparr>"
      by blast
    from c show "remaining r' = drop (4 + 4 * ?N) (remaining r)" by blast
    from 1 have l: "length (take (4 * ?N) (drop 4 (remaining r))) = 4 * ?N" by simp
    from 2 l show 3: "length (Voxels vf') = ?N"
      by (simp add: length_spec_voxels)
    show "\<forall>k < ?N. Voxels vf' ! k
        = Some \<lparr>X = remaining r ! (4 + 4 * k), Y = remaining r ! (4 + 4 * k + 1),
                Z = remaining r ! (4 + 4 * k + 2), Index = remaining r ! (4 + 4 * k + 3)\<rparr>"
    proof (intro allI impI)
      fix k assume k: "k < ?N"
      from spec_voxels_nth [OF l k] k 1 2 l
      show "Voxels vf' ! k
        = Some \<lparr>X = remaining r ! (4 + 4 * k), Y = remaining r ! (4 + 4 * k + 1),
                Z = remaining r ! (4 + 4 * k + 2), Index = remaining r ! (4 + 4 * k + 3)\<rparr>"
        by (simp add: length_spec_voxels add.assoc)
    qed
  }
  {
    assume a: "0 < chunkSize" "4 + 4 * ?N \<le> length (remaining r)"
    from readXYZI_complete [OF a(2), of "ascii ''XYZI''" vf] a(1)
    show "\<exists>r2 vf2. readPayload (ascii ''XYZI'') chunkSize r vf = Inr (r2, vf2)"
      by (simp add: readPayload_def ascii_distinct)
  }
  {
    assume a: "length ss = 4" "0 < Uint32 ss" "length cnt = 4" "length vbytes = 4 * unat (Uint32 cnt)"
    have c: "readChunk \<lparr>buf = ascii ''XYZI'' @ ss @ [0, 0, 0, 0] @ cnt @ vbytes @ b, src = s\<rparr> vf0
          = (Inr (Uint32 ss + 12, \<lparr>buf = b, src = s\<rparr>), vf0\<lparr>Voxels := map Some (spec_voxels vbytes)\<rparr>)"
      for vf0
    proof -
      have p: "readPayload (ascii ''XYZI'') (Uint32 ss) \<lparr>buf = cnt @ vbytes @ b, src = s\<rparr> vf0
          = Inr (\<lparr>buf = b, src = s\<rparr>, vf0\<lparr>Voxels := map Some (spec_voxels vbytes)\<rparr>)"
        by (rule readPayload_XYZI_buffered [OF a(2,3,4)])
      have "readChunk \<lparr>buf = ascii ''XYZI'' @ ss @ [0, 0, 0, 0] @ (cnt @ vbytes @ b), src = s\<rparr> vf0
          = (case readPayload (ascii ''XYZI'') (Uint32 ss) \<lparr>buf = cnt @ vbytes @ b, src = s\<rparr> vf0 of
              Inl e \<Rightarrow> (Inl e, vf0)
            | Inr (r4, vf1) \<Rightarrow>
                (case readChildren (Uint32 [0, 0, 0, 0]) r4 vf1 of
                   (Inl e, vf2) \<Rightarrow> (Inl e, vf2)
                 | (Inr r5, vf2) \<Rightarrow> (Inr (Uint32 ss + 12, r5), vf2)))"
        by (rule readChunk_header) (simp_all add: length_ascii4 a(1))
      then show ?thesis
        by (simp add: p Uint32_zero readChildren_0)
    qed
    show "readChunk \<lparr>buf = ascii ''XYZI'' @ ss @ [0, 0, 0, 0] @ cnt @ vbytes @ b, src = s\<rparr> vf
          = (Inr (Uint32 ss + 12, \<lparr>buf = b, src = s\<rparr>), vf\<lparr>Voxels := map Some (spec_voxels vbytes)\<rparr>)"
      by (rule c)
    show "Decode (delivered ((voxHeader @ ascii ''XYZI'' @ ss @ [0, 0, 0, 0] @ cnt @ vbytes @ b) # s))
          = (Some (new_VoxFile\<lparr>Version := 150, Voxels := map Some (spec_voxels vbytes),
                                 Palette := instancePalette defaultPalette\<rparr>), None)"
      unfolding Decode_delivered c by simp
  }
qed

text \<open>
  The example of the claim with the count bytes 01 00 00 00: the payload
  01 00 00 00 | 01 02 03 04 (here delivered in three pieces, with one more byte behind it)
  decodes to the single voxel X = 1, Y = 2, Z = 3, Index = 4, over a record that held two voxel
  slots before.
\<close>

theorem XYZI_voxels_witness:
  "0 < (8 :: uint32)
   \<and> readPayload (ascii ''XYZI'') 8 \<lparr>buf = [1, 0], src = [[0, 0, 1], [2, 3, 4, 9]]\<rparr>
        (new_VoxFile\<lparr>Voxels := [None, None]\<rparr>)
       = Inr (\<lparr>buf = [9], src = []\<rparr>,
              new_VoxFile\<lparr>Voxels := [Some \<lparr>X = 1, Y = 2, Z = 3, Index = 4\<rparr>]\<rparr>)
   \<and> unat (Uint32 (take 4 (remaining \<lparr>buf = [1, 0], src = [[0, 0, 1], [2, 3, 4, 9]]\<rparr>))) = 1
   \<and> length (Voxels (new_VoxFile\<lparr>Voxels := [Some \<lparr>X = 1, Y = 2, Z = 3, Index = 4\<rparr>]\<rparr>))
       = unat (Uint32 (take 4 (remaining \<lparr>buf = [1, 0], src = [[0, 0, 1], [2, 3, 4, 9]]\<rparr>)))
   \<and> length [8, 0, 0, 0 :: byte] = 4 \<and> 0 < Uint32 [8, 0, 0, 0]
   \<and> length [1, 0, 0, 0 :: byte] = 4 \<and> length [1, 2, 3, 4 :: byte] = 4 * unat (Uint32 [1, 0, 0, 0])
   \<and> readChunk \<lparr>buf = ascii ''XYZI'' @ [8, 0, 0, 0] @ [0, 0, 0, 0] @ [1, 0, 0, 0] @ [1, 2, 3, 4] @ [],
               src = []\<rparr> (new_VoxFile\<lparr>Voxels := [None, None]\<rparr>)
       = (Inr (20, \<lparr>buf = [], src = []\<rparr>),
          new_VoxFile\<lparr>Voxels := [Some \<lparr>X = 1, Y = 2, Z = 3, Index = 4\<rparr>]\<rparr>)
   \<and> Decode (delivered ((voxHeader @ ascii ''XYZI'' @ [8, 0, 0, 0] @ [0, 0, 0, 0] @ [1, 0, 0, 0]
                           @ [1, 2, 3, 4] @ []) # []))
       = (Some (new_VoxFile\<lparr>Version := 150, Voxels := [Some \<lparr>X = 1, Y = 2, Z = 3, Index = 4\<rparr>],
                              Palette := instancePalette defaultPalette\<rparr>), None)"
proof -
  let ?r = "\<lparr>buf = [1, 0], src = [[0, 0, 1], [2, 3, 4, 9 :: byte]]\<rparr>"
  let ?vf = "new_VoxFile\<lparr>Voxels := [None, None]\<rparr>"
  let ?r' = "\<lparr>buf = [9 :: byte], src = []\<rparr>"
  let ?vf' = "new_VoxFile\<lparr>Voxels := [Some \<lparr>X = 1, Y = 2, Z = 3, Index = 4\<rparr>]\<rparr>"
  note t = XYZI_voxels [of 8 ?r ?vf ?r' ?vf' "[8, 0, 0, 0]" "[1, 0, 0, 0]" "[1, 2, 3, 4]" "[]" "[]"]
  have rem: "remaining ?r = [1, 0, 0, 0, 1, 2, 3, 4, 9]" by (simp add: remaining_def)
  have u: "Uint32 [1, 0, 0, 0] = 1" "Uint32 [8, 0, 0, 0] = 8" by (simp_all add: Uint32_small)
  have n: "unat (Uint32 (take 4 (remaining ?r))) = 1" by (simp add: rem u)
  have g: "binary_Read_uint32 ?r = Inr (1, \<lparr>buf = [1], src = [[2, 3, 4, 9]]\<rparr>)"
    unfolding binary_Read_uint32_def
    by (subst ReadFull.simps, simp add: Reader_Read_def,
        subst ReadFull.simps, simp add: Reader_Read_def,
        subst ReadFull.simps, simp add: Uint32_def)
  have r8: "binary_Read_uint8 \<lparr>buf = [], src = (x # xs) # ys\<rparr> = Inr (x, \<lparr>buf = xs, src = ys\<rparr>)"
    for x xs ys
    unfolding binary_Read_uint8_def
    by (subst ReadFull.simps, simp add: Reader_Read_def, subst ReadFull.simps, simp)
  have v: "readVoxels (ascii ''XYZI'') 1 0 [None] \<lparr>buf = [1], src = [[2, 3, 4, 9]]\<rparr>
      = Inr ([Some \<lparr>X = 1, Y = 2, Z = 3, Index = 4\<rparr>], ?r')"
    by (subst readVoxels.simps, simp add: r8 binary_Read_uint8_buffered)
       (subst readVoxels.simps, simp)
  have e: "readPayload (ascii ''XYZI'') 8 ?r ?vf = Inr (?r', ?vf')"
    by (simp add: readPayload_def ascii_distinct readXYZI_def g v)
  have h0: "0 < (8 :: uint32) \<and> readPayload (ascii ''XYZI'') 8 ?r ?vf = Inr (?r', ?vf')"
    using e by simp
  with t have 1: "length (Voxels ?vf') = unat (Uint32 (take 4 (remaining ?r)))"
    by blast
  have h: "length [8, 0, 0, 0 :: byte] = 4 \<and> 0 < Uint32 [8, 0, 0, 0]
     \<and> length [1, 0, 0, 0 :: byte] = 4 \<and> length [1, 2, 3, 4 :: byte] = 4 * unat (Uint32 [1, 0, 0, 0])"
    by (simp add: u)
  with t have 2: "readChunk \<lparr>buf = ascii ''XYZI'' @ [8, 0, 0, 0] @ [0, 0, 0, 0] @ [1, 0, 0, 0] @ [1, 2, 3, 4] @ [],
               src = []\<rparr> ?vf
       = (Inr (Uint32 [8, 0, 0, 0] + 12, \<lparr>buf = [], src = []\<rparr>),
          ?vf\<lparr>Voxels := map Some (spec_voxels [1, 2, 3, 4])\<rparr>)"
    by blast
  from t h
  have 3: "Decode (delivered ((voxHeader @ ascii ''XYZI'' @ [8, 0, 0, 0] @ [0, 0, 0, 0] @ [1, 0, 0, 0]
                           @ [1, 2, 3, 4] @ []) # []))
       = (Some (new_VoxFile\<lparr>Version := 150, Voxels := map Some (spec_voxels [1, 2, 3, 4]),
                              Palette := instancePalette defaultPalette\<rparr>), None)"
    by blast
  from e n 1 h 2 3 show ?thesis by (simp add: u)
qed

text \<open>
  The claim's own bytes 05 00 00 00 | 01 02 03 04 declare five voxels, not one: the first
  voxel is read and the second meets the end of the input.
\<close>

theorem XYZI_five_counterexample:
  "Uint32 [5, 0, 0, 0] = 5
   \<and> readChunk \<lparr>buf = ascii ''XYZI'' @ [8, 0, 0, 0] @ [0, 0, 0, 0] @ [5, 0, 0, 0] @ [1, 2, 3, 4],
               src = []\<rparr> new_VoxFile
       = (Inl (ErrVoxel (ascii ''XYZI'') 1 EOF), new_VoxFile)"
  apply (simp add: ascii4 readChunk_buffered Uint32_small readPayload_def readXYZI_def
      binary_Read_uint32_buffered)
  apply (subst readVoxels.simps, simp add: binary_Read_uint8_buffered)
  apply (subst readVoxels.simps, simp add: binary_Read_uint8_end)
  done

text \<open>
  C8 fails on the code. An unrecognized chunk ABCD with one byte of payload, followed by more
  input: the loop of lines 234-240 reads four bytes at a time, so it consumes the payload byte
  and the three bytes after it, while \<open>readChunk\<close> returns 1 + 12. In a file where a SIZE
  chunk follows, the reader continues in the middle of that chunk's header and Decode fails.
\<close>

theorem skip_reads_past_payload:
  "readChunk \<lparr>buf = ascii ''ABCD'' @ [1, 0, 0, 0] @ [0, 0, 0, 0] @ [170] @ [1, 2, 3], src = []\<rparr>
       new_VoxFile
     = (Inr (13, \<lparr>buf = [], src = []\<rparr>), new_VoxFile)
   \<and> Decode (delivered [voxHeader @ ascii ''MAIN'' @ [0, 0, 0, 0] @ [37, 0, 0, 0]
        @ ascii ''ABCD'' @ [1, 0, 0, 0] @ [0, 0, 0, 0] @ [170]
        @ ascii ''SIZE'' @ [12, 0, 0, 0] @ [0, 0, 0, 0] @ [20, 0, 0, 0, 21, 0, 0, 0, 20, 0, 0, 0]])
     = (Some (new_VoxFile\<lparr>Version := 150, Palette := instancePalette defaultPalette\<rparr>),
        Some (ErrChildrenSize [0, 21, 0, 0] ErrUnexpectedEOF))"
proof -
  have u: "Uint32 [0, 20, 0, 0] = 5120" by (simp add: Uint32_def)
  have a: "readChunk \<lparr>buf = ascii ''ABCD'' @ [1, 0, 0, 0] @ [0, 0, 0, 0] @ [170] @ [1, 2, 3], src = []\<rparr>
       new_VoxFile
     = (Inr (13, \<lparr>buf = [], src = []\<rparr>), new_VoxFile)"
    by (simp add: ascii_def readChunk_buffered Uint32_small Uint32_zero readPayload_def
        skipContents_step4 skipContents_done readChildren_0)
  have d: "Decode (delivered [voxHeader @ ascii ''MAIN'' @ [0, 0, 0, 0] @ [37, 0, 0, 0]
        @ ascii ''ABCD'' @ [1, 0, 0, 0] @ [0, 0, 0, 0] @ [170]
        @ ascii ''SIZE'' @ [12, 0, 0, 0] @ [0, 0, 0, 0] @ [20, 0, 0, 0, 21, 0, 0, 0, 20, 0, 0, 0]])
     = (Some (new_VoxFile\<lparr>Version := 150, Palette := instancePalette defaultPalette\<rparr>),
        Some (ErrChildrenSize [0, 21, 0, 0] ErrUnexpectedEOF))"
    unfolding Decode_delivered
    by (simp add: ascii_def readChunk_buffered Uint32_small Uint32_zero u readPayload_def
        skipContents_step4 skipContents_done readChildren_0 readChildren_pos
        readChunk_short_children)
  from a d show ?thesis by blast
qed

text \<open>
  C9. A chunk whose declared payload size is 0, whatever its identifier: the payload handling
  consumes nothing, leaves the record as it was and raises no error, and \<open>readChunk\<close> goes
  on to the children with the same stream and the same record; this on any stream, once the
  three reads of the chunk header have returned, and with the twelve header bytes in the
  buffer. With no children the chunk returns 12 and the untouched record.
\<close>

theorem empty_payload_untouched:
  "readPayload cid 0 r vf = Inr (r, vf)
   \<and> (Reader_Read 4 r = Inr (cid, r1) \<and> binary_Read_uint32 r1 = Inr (0, r2)
        \<and> binary_Read_uint32 r2 = Inr (childrenSize, r3) \<longrightarrow>
      readChunk r vf
        = (case readChildren childrenSize r3 vf of
             (Inl e, vf2) \<Rightarrow> (Inl e, vf2)
           | (Inr r5, vf2) \<Rightarrow> (Inr (12, r5), vf2)))
   \<and> (length cid = 4 \<and> length ss = 4 \<and> Uint32 ss = 0 \<and> length cs = 4 \<longrightarrow>
        readPayload cid (Uint32 ss) r vf = Inr (r, vf)
        \<and> readChunk \<lparr>buf = cid @ ss @ cs @ b, src = s\<rparr> vf
            = (case readChildren (Uint32 cs) \<lparr>buf = b, src = s\<rparr> vf of
                 (Inl e, vf2) \<Rightarrow> (Inl e, vf2)
               | (Inr r5, vf2) \<Rightarrow> (Inr (12, r5), vf2))
        \<and> (Uint32 cs = 0 \<longrightarrow>
             readChunk \<lparr>buf = cid @ ss @ cs @ b, src = s\<rparr> vf = (Inr (12, \<lparr>buf = b, src = s\<rparr>), vf)))"
proof (intro conjI impI; (elim conjE)?)
  show "readPayload cid 0 r vf = Inr (r, vf)" by (rule readPayload_0)
next
  assume a: "Reader_Read 4 r = Inr (cid, r1)" "binary_Read_uint32 r1 = Inr (0, r2)"
    "binary_Read_uint32 r2 = Inr (childrenSize, r3)"
  from readChunk_reads [OF a, of vf]
  show "readChunk r vf
        = (case readChildren childrenSize r3 vf of
             (Inl e, vf2) \<Rightarrow> (Inl e, vf2)
           | (Inr r5, vf2) \<Rightarrow> (Inr (12, r5), vf2))"
    by (simp add: readPayload_0 split: prod.splits sum.splits)
next
  assume a: "length cid = 4" "length ss = 4" "Uint32 ss = 0" "length cs = 4"
  show "readPayload cid (Uint32 ss) r vf = Inr (r, vf)"
    unfolding a(3) by (rule readPayload_0)
  have p: "readPayload cid (Uint32 ss) \<lparr>buf = b, src = s\<rparr> vf = Inr (\<lparr>buf = b, src = s\<rparr>, vf)"
    unfolding a(3) by (rule readPayload_0)
  show c: "readChunk \<lparr>buf = cid @ ss @ cs @ b, src = s\<rparr> vf
         = (case readChildren (Uint32 cs) \<lparr>buf = b, src = s\<rparr> vf of
              (Inl e, vf2) \<Rightarrow> (Inl e, vf2)
            | (Inr r5, vf2) \<Rightarrow> (Inr (12, r5), vf2))"
    using readChunk_header [OF a(1,2,4), of b s vf] p a(3)
    by (simp split: prod.splits sum.splits)
  assume "Uint32 cs = 0"
  with c show "readChunk \<lparr>buf = cid @ ss @ cs @ b, src = s\<rparr> vf = (Inr (12, \<lparr>buf = b, src = s\<rparr>), vf)"
    by (simp add: readChildren_0)
qed

text \<open>
  The three recognized identifiers with size 0, in front of bytes that are not read, and an
  XYZI chunk with size 0 whose header comes out of four reads of the underlying reader.
\<close>

theorem empty_payload_untouched_witness:
  "readChunk \<lparr>buf = ascii ''SIZE'' @ [0, 0, 0, 0] @ [0, 0, 0, 0] @ [1, 2, 3], src = [[4, 5]]\<rparr> new_VoxFile
     = (Inr (12, \<lparr>buf = [1, 2, 3], src = [[4, 5]]\<rparr>), new_VoxFile)
   \<and> readChunk \<lparr>buf = ascii ''XYZI'' @ [0, 0, 0, 0] @ [0, 0, 0, 0] @ [1, 2, 3], src = [[4, 5]]\<rparr> new_VoxFile
     = (Inr (12, \<lparr>buf = [1, 2, 3], src = [[4, 5]]\<rparr>), new_VoxFile)
   \<and> readChunk \<lparr>buf = ascii ''RGBA'' @ [0, 0, 0, 0] @ [0, 0, 0, 0] @ [1, 2, 3], src = [[4, 5]]\<rparr> new_VoxFile
     = (Inr (12, \<lparr>buf = [1, 2, 3], src = [[4, 5]]\<rparr>), new_VoxFile)
   \<and> Reader_Read 4 (delivered [ascii ''XYZI'', [0, 0], [0, 0, 0, 0, 0], [0, 1, 2, 3]])
     = Inr (ascii ''XYZI'', \<lparr>buf = [], src = [[0, 0], [0, 0, 0, 0, 0], [0, 1, 2, 3]]\<rparr>)
   \<and> binary_Read_uint32 \<lparr>buf = [], src = [[0, 0], [0, 0, 0, 0, 0], [0, 1, 2, 3]]\<rparr>
     = Inr (0, \<lparr>buf = [0, 0, 0], src = [[0, 1, 2, 3]]\<rparr>)
   \<and> binary_Read_uint32 \<lparr>buf = [0, 0, 0], src = [[0, 1, 2, 3]]\<rparr>
     = Inr (0, \<lparr>buf = [1, 2, 3], src = []\<rparr>)
   \<and> readChunk (delivered [ascii ''XYZI'', [0, 0], [0, 0, 0, 0, 0], [0, 1, 2, 3]]) new_VoxFile
     = (Inr (12, \<lparr>buf = [1, 2, 3], src = []\<rparr>), new_VoxFile)"
proof -
  let ?b = "\<lparr>buf = [1, 2, 3], src = [[4, 5 :: byte]]\<rparr>"
  have h: "length (ascii ''SIZE'') = 4 \<and> length [0, 0, 0, 0 :: byte] = 4
      \<and> Uint32 [0, 0, 0, 0] = 0 \<and> length [0, 0, 0, 0 :: byte] = 4"
    "length (ascii ''XYZI'') = 4 \<and> length [0, 0, 0, 0 :: byte] = 4
      \<and> Uint32 [0, 0, 0, 0] = 0 \<and> length [0, 0, 0, 0 :: byte] = 4"
    "length (ascii ''RGBA'') = 4 \<and> length [0, 0, 0, 0 :: byte] = 4
      \<and> Uint32 [0, 0, 0, 0] = 0 \<and> length [0, 0, 0, 0 :: byte] = 4"
    by (simp_all add: length_ascii4 Uint32_zero)
  from empty_payload_untouched [of "ascii ''SIZE''" ?b new_VoxFile _ _ _ _ "[0, 0, 0, 0]"
      "[0, 0, 0, 0]" "[1, 2, 3]" "[[4, 5]]"] h(1)
  have 1: "readChunk \<lparr>buf = ascii ''SIZE'' @ [0, 0, 0, 0] @ [0, 0, 0, 0] @ [1, 2, 3], src = [[4, 5]]\<rparr>
      new_VoxFile = (Inr (12, ?b), new_VoxFile)"
    by blast
  from empty_payload_untouched [of "ascii ''XYZI''" ?b new_VoxFile _ _ _ _ "[0, 0, 0, 0]"
      "[0, 0, 0, 0]" "[1, 2, 3]" "[[4, 5]]"] h(2)
  have 2: "readChunk \<lparr>buf = ascii ''XYZI'' @ [0, 0, 0, 0] @ [0, 0, 0, 0] @ [1, 2, 3], src = [[4, 5]]\<rparr>
      new_VoxFile = (Inr (12, ?b), new_VoxFile)"
    by blast
  from empty_payload_untouched [of "ascii ''RGBA''" ?b new_VoxFile _ _ _ _ "[0, 0, 0, 0]"
      "[0, 0, 0, 0]" "[1, 2, 3]" "[[4, 5]]"] h(3)
  have 3: "readChunk \<lparr>buf = ascii ''RGBA'' @ [0, 0, 0, 0] @ [0, 0, 0, 0] @ [1, 2, 3], src = [[4, 5]]\<rparr>
      new_VoxFile = (Inr (12, ?b), new_VoxFile)"
    by blast
  let ?r = "delivered [ascii ''XYZI'', [0, 0], [0, 0, 0, 0, 0], [0, 1, 2, 3]]"
  let ?r1 = "\<lparr>buf = [], src = [[0, 0], [0, 0, 0, 0, 0], [0, 1, 2, 3 :: byte]]\<rparr>"
  let ?r2 = "\<lparr>buf = [0, 0, 0], src = [[0, 1, 2, 3 :: byte]]\<rparr>"
  let ?r3 = "\<lparr>buf = [1, 2, 3 :: byte], src = []\<rparr>"
  have a: "Reader_Read 4 ?r = Inr (ascii ''XYZI'', ?r1)"
    by (simp add: delivered_def Reader_Read_fill ascii_def)
  have b: "binary_Read_uint32 ?r1 = Inr (0, ?r2)"
    by (simp add: binary_Read_uint32_pieces_2_2 Uint32_zero)
  have c: "binary_Read_uint32 ?r2 = Inr (0, ?r3)"
    by (simp add: binary_Read_uint32_pieces_3_1 Uint32_zero)
  from empty_payload_untouched [of "ascii ''XYZI''" ?r new_VoxFile ?r1 ?r2 0 ?r3] a b c
  have 4: "readChunk ?r new_VoxFile = (Inr (12, ?r3), new_VoxFile)"
    by (simp add: readChildren_0)
  from 1 2 3 a b c 4 show ?thesis by blast
qed

text \<open>
  C10. On every stream that passes the header, Decode returns a record, whether \<open>readChunk\<close>
  failed or not, and the palette of that record is the default palette: the 256 colors of
  \<open>defaultColors\<close>, entry i being the bytes 0, 1, 2, 3 of the i-th value of \<open>defaultPalette\<close>
  as R, G, B, A; so entries 0, 1, 2 and 255 are (0, 0, 0, 0), (255, 255, 255, 255),
  (255, 255, 204, 255) and (17, 17, 17, 255). Nothing of the input after the header enters it.
\<close>

theorem Decode_palette_always_default:
  "Decode_header r = Inr (v, r2) \<longrightarrow>
     (\<exists>vf. Decode r = (Some vf, case fst (readChunk r2 (new_VoxFile\<lparr>Version := v\<rparr>)) of
                                  Inl e \<Rightarrow> Some e | Inr x \<Rightarrow> None)
        \<and> Palette vf = map Some defaultColors
        \<and> length (Palette vf) = 256
        \<and> (\<forall>i < 256. Palette vf ! i
              = Some \<lparr>R = ucast (defaultPalette ! i), G = ucast (drop_bit 8 (defaultPalette ! i)),
                      B = ucast (drop_bit 16 (defaultPalette ! i)),
                      A = ucast (drop_bit 24 (defaultPalette ! i))\<rparr>)
        \<and> Palette vf ! 0 = Some \<lparr>R = 0, G = 0, B = 0, A = 0\<rparr>
        \<and> Palette vf ! 1 = Some \<lparr>R = 255, G = 255, B = 255, A = 255\<rparr>
        \<and> Palette vf ! 2 = Some \<lparr>R = 255, G = 255, B = 204, A = 255\<rparr>
        \<and> Palette vf ! 255 = Some \<lparr>R = 17, G = 17, B = 17, A = 255\<rparr>)"
proof
  assume h: "Decode_header r = Inr (v, r2)"
  let ?vf = "(snd (readChunk r2 (new_VoxFile\<lparr>Version := v\<rparr>)))\<lparr>Palette := instancePalette defaultPalette\<rparr>"
  have p: "Palette ?vf = instancePalette defaultPalette" by simp
  have "defaultColors ! 255 = \<lparr>R = 17, G = 17, B = 17, A = 255\<rparr>"
    by (simp add: defaultColors_def rgba_def)
  then have e255: "map Some defaultColors ! 255 = Some \<lparr>R = 17, G = 17, B = 17, A = 255\<rparr>"
    by (simp add: length_defaultColors)
  have d: "Decode r = (Some ?vf, case fst (readChunk r2 (new_VoxFile\<lparr>Version := v\<rparr>)) of
                                  Inl e \<Rightarrow> Some e | Inr x \<Rightarrow> None)"
    by (rule Decode_header_Inr [OF h])
  have 1: "Palette ?vf = map Some defaultColors"
    unfolding p by (rule instancePalette_defaultColors)
  have 2: "length (Palette ?vf) = 256"
    unfolding p by (rule length_instancePalette_default)
  have 3: "\<forall>i < 256. Palette ?vf ! i
              = Some \<lparr>R = ucast (defaultPalette ! i), G = ucast (drop_bit 8 (defaultPalette ! i)),
                      B = ucast (drop_bit 16 (defaultPalette ! i)),
                      A = ucast (drop_bit 24 (defaultPalette ! i))\<rparr>"
    unfolding p by (intro allI impI) (rule instancePalette_nth)
  have 4: "Palette ?vf ! 0 = Some \<lparr>R = 0, G = 0, B = 0, A = 0\<rparr>"
    unfolding p by (rule instancePalette_entries(1))
  have 5: "Palette ?vf ! 1 = Some \<lparr>R = 255, G = 255, B = 255, A = 255\<rparr>"
    unfolding p by (rule instancePalette_entries(2))
  have 6: "Palette ?vf ! 2 = Some \<lparr>R = 255, G = 255, B = 204, A = 255\<rparr>"
    unfolding p by (rule instancePalette_entries(3))
  have 7: "Palette ?vf ! 255 = Some \<lparr>R = 17, G = 17, B = 17, A = 255\<rparr>"
    unfolding p by (simp only: instancePalette_defaultColors e255)
  from d 1 2 3 4 5 6 7
  show "\<exists>vf. Decode r = (Some vf, case fst (readChunk r2 (new_VoxFile\<lparr>Version := v\<rparr>)) of
                                  Inl e \<Rightarrow> Some e | Inr x \<Rightarrow> None)
        \<and> Palette vf = map Some defaultColors
        \<and> length (Palette vf) = 256
        \<and> (\<forall>i < 256. Palette vf ! i
              = Some \<lparr>R = ucast (defaultPalette ! i), G = ucast (drop_bit 8 (defaultPalette ! i)),
                      B = ucast (drop_bit 16 (defaultPalette ! i)),
                      A = ucast (drop_bit 24 (defaultPalette ! i))\<rparr>)
        \<and> Palette vf ! 0 = Some \<lparr>R = 0, G = 0, B = 0, A = 0\<rparr>
        \<and> Palette vf ! 1 = Some \<lparr>R = 255, G = 255, B = 255, A = 255\<rparr>
        \<and> Palette vf ! 2 = Some \<lparr>R = 255, G = 255, B = 204, A = 255\<rparr>
        \<and> Palette vf ! 255 = Some \<lparr>R = 17, G = 17, B = 17, A = 255\<rparr>"
    by blast
qed

text \<open>
  Two files that hold a palette chunk with 256 times the color (1, 2, 3, 4): one that consists
  of this chunk and decodes without error, and one where MAIN holds the palette chunk and a
  voxel chunk that ends after its count, so that reading fails after the palette chunk was
  stored. Both return the default palette.
\<close>

theorem Decode_palette_always_default_witness:
  "Decode_header (delivered [voxHeader @ ascii ''RGBA'' @ [0, 4, 0, 0] @ [0, 0, 0, 0]
                               @ concat (replicate 256 [1, 2, 3, 4]) @ []])
     = Inr (150, \<lparr>buf = ascii ''RGBA'' @ [0, 4, 0, 0] @ [0, 0, 0, 0]
                          @ concat (replicate 256 [1, 2, 3, 4]) @ [], src = []\<rparr>)
   \<and> Palette (snd (readChunk \<lparr>buf = ascii ''RGBA'' @ [0, 4, 0, 0] @ [0, 0, 0, 0]
                                       @ concat (replicate 256 [1, 2, 3, 4]) @ [], src = []\<rparr>
                      (new_VoxFile\<lparr>Version := 150\<rparr>)))
       = replicate 256 (Some \<lparr>R = 1, G = 2, B = 3, A = 4\<rparr>)
   \<and> (\<exists>vf. Decode (delivered [voxHeader @ ascii ''RGBA'' @ [0, 4, 0, 0] @ [0, 0, 0, 0]
                                 @ concat (replicate 256 [1, 2, 3, 4]) @ []])
              = (Some vf, None)
          \<and> Palette vf = map Some defaultColors
          \<and> Palette vf ! 2 = Some \<lparr>R = 255, G = 255, B = 204, A = 255\<rparr>
          \<and> Palette vf ! 255 = Some \<lparr>R = 17, G = 17, B = 17, A = 255\<rparr>)
   \<and> Decode_header (delivered [voxHeader @ ascii ''MAIN'' @ [0, 0, 0, 0] @ [28, 4, 0, 0]
                 @ ascii ''RGBA'' @ [0, 4, 0, 0] @ [0, 0, 0, 0] @ concat (replicate 256 [1, 2, 3, 4])
                 @ ascii ''XYZI'' @ [8, 0, 0, 0] @ [0, 0, 0, 0] @ [1, 0, 0, 0]])
     = Inr (150, \<lparr>buf = ascii ''MAIN'' @ [0, 0, 0, 0] @ [28, 4, 0, 0]
                 @ ascii ''RGBA'' @ [0, 4, 0, 0] @ [0, 0, 0, 0] @ concat (replicate 256 [1, 2, 3, 4])
                 @ ascii ''XYZI'' @ [8, 0, 0, 0] @ [0, 0, 0, 0] @ [1, 0, 0, 0], src = []\<rparr>)
   \<and> (\<exists>vf. Decode (delivered [voxHeader @ ascii ''MAIN'' @ [0, 0, 0, 0] @ [28, 4, 0, 0]
                 @ ascii ''RGBA'' @ [0, 4, 0, 0] @ [0, 0, 0, 0] @ concat (replicate 256 [1, 2, 3, 4])
                 @ ascii ''XYZI'' @ [8, 0, 0, 0] @ [0, 0, 0, 0] @ [1, 0, 0, 0]])
              = (Some vf, Some (ErrVoxel (ascii ''XYZI'') 0 EOF))
          \<and> Palette vf = map Some defaultColors
          \<and> Palette vf ! 2 = Some \<lparr>R = 255, G = 255, B = 204, A = 255\<rparr>
          \<and> Palette vf ! 255 = Some \<lparr>R = 17, G = 17, B = 17, A = 255\<rparr>)"
proof -
  let ?rgba = "ascii ''RGBA'' @ [0, 4, 0, 0] @ [0, 0, 0, 0] @ concat (replicate 256 [1, 2, 3, 4]) @ []"
  let ?main = "ascii ''MAIN'' @ [0, 0, 0, 0] @ [28, 4, 0, 0]
                 @ ascii ''RGBA'' @ [0, 4, 0, 0] @ [0, 0, 0, 0] @ concat (replicate 256 [1, 2, 3, 4])
                 @ ascii ''XYZI'' @ [8, 0, 0, 0] @ [0, 0, 0, 0] @ [1, 0, 0, 0]"
  let ?v = "new_VoxFile\<lparr>Version := 150\<rparr>"
  have h1: "Decode_header (delivered [voxHeader @ ?rgba]) = Inr (150, \<lparr>buf = ?rgba, src = []\<rparr>)"
    by (rule Decode_header_delivered)
  have h2: "Decode_header (delivered [voxHeader @ ?main]) = Inr (150, \<lparr>buf = ?main, src = []\<rparr>)"
    by (rule Decode_header_delivered)
  have c1: "readChunk \<lparr>buf = ?rgba, src = []\<rparr> ?v
      = (Inr (1036, \<lparr>buf = [], src = []\<rparr>),
         ?v\<lparr>Palette := replicate 256 (Some \<lparr>R = 1, G = 2, B = 3, A = 4\<rparr>)\<rparr>)"
    by (rule readChunk_RGBA_1234)
  have c2: "readChunk \<lparr>buf = ?main, src = []\<rparr> ?v
      = (Inl (ErrVoxel (ascii ''XYZI'') 0 EOF),
         ?v\<lparr>Palette := replicate 256 (Some \<lparr>R = 1, G = 2, B = 3, A = 4\<rparr>)\<rparr>)"
    by (rule readChunk_MAIN_RGBA_truncated)
  have p: "Palette (snd (readChunk \<lparr>buf = ?rgba, src = []\<rparr> ?v))
       = replicate 256 (Some \<lparr>R = 1, G = 2, B = 3, A = 4\<rparr>)"
    unfolding c1 by simp
  from Decode_palette_always_default [of "delivered [voxHeader @ ?rgba]" 150 "\<lparr>buf = ?rgba, src = []\<rparr>"] h1
  have 1: "\<exists>vf. Decode (delivered [voxHeader @ ?rgba]) = (Some vf, None)
          \<and> Palette vf = map Some defaultColors
          \<and> Palette vf ! 2 = Some \<lparr>R = 255, G = 255, B = 204, A = 255\<rparr>
          \<and> Palette vf ! 255 = Some \<lparr>R = 17, G = 17, B = 17, A = 255\<rparr>"
    unfolding c1 by auto
  from Decode_palette_always_default [of "delivered [voxHeader @ ?main]" 150 "\<lparr>buf = ?main, src = []\<rparr>"] h2
  have 2: "\<exists>vf. Decode (delivered [voxHeader @ ?main]) = (Some vf, Some (ErrVoxel (ascii ''XYZI'') 0 EOF))
          \<and> Palette vf = map Some defaultColors
          \<and> Palette vf ! 2 = Some \<lparr>R = 255, G = 255, B = 204, A = 255\<rparr>
          \<and> Palette vf ! 255 = Some \<lparr>R = 17, G = 17, B = 17, A = 255\<rparr>"
    unfolding c2 by auto
  from h1 p 1 h2 2 show ?thesis by blast
qed

end
